theory Spec2Isabelle
  imports Main
begin

section \<open>Output stream helpers (lib/helpers.js)\<close>

text \<open>
  The chunks handed to the helpers are JavaScript strings; they are modelled as
  \<^typ>\<open>string\<close>, one \<^typ>\<open>char\<close> per code unit. The only characters the two regular
  expressions look at are ASCII. The line terminators that \<^verbatim>\<open>.\<close> refuses are line feed and
  carriage return here; U+2028 and U+2029 do not exist in an 8-bit \<^typ>\<open>char\<close>.
\<close>

definition filler :: char where
  "filler = CHR ''*''"

definition newline :: char where
  "newline = CHR 0x0A"

fun starts_with :: "string \<Rightarrow> string \<Rightarrow> bool" where
  "starts_with [] s = True"
| "starts_with (p # ps) [] = False"
| "starts_with (p # ps) (c # cs) = (p = c \<and> starts_with ps cs)"

text \<open>\<^verbatim>\<open>s.indexOf(pat) !== -1\<close>\<close>

fun contains :: "string \<Rightarrow> string \<Rightarrow> bool" where
  "contains pat [] = (pat = [])"
| "contains pat (c # cs) = (starts_with pat (c # cs) \<or> contains pat cs)"

text \<open>\<^verbatim>\<open>\n?\<close>, greedy: a line feed is consumed when there is one.\<close>

definition opt_newline :: "string \<Rightarrow> string" where
  "opt_newline s = (case s of [] \<Rightarrow> [] | c # cs \<Rightarrow> if c = newline then cs else c # cs)"

text \<open>
  \<^verbatim>\<open>\*+\n?\<close> at the head of \<open>s\<close>: the text after the match, or \<open>None\<close>. Nothing follows
  the two greedy quantifiers in the expression, so the longest match is the match.
\<close>

definition stars_then_newline :: "string \<Rightarrow> string option" where
  "stars_then_newline s =
     (case s of
        [] \<Rightarrow> None
      | c # cs \<Rightarrow>
          if c = filler then Some (opt_newline (dropWhile (\<lambda>x. x = filler) cs)) else None)"

text \<open>
  \<^verbatim>\<open>(\n|^)\*+\n?\<close> tried at one position. The alternative \<^verbatim>\<open>\n\<close> is tried first, then
  \<^verbatim>\<open>^\<close>, which (no \<^verbatim>\<open>m\<close> flag) holds at index 0 only: \<open>at_start\<close>.
\<close>

definition match_at :: "bool \<Rightarrow> string \<Rightarrow> string option" where
  "match_at at_start s =
     (case (case s of [] \<Rightarrow> None
                    | c # cs \<Rightarrow> if c = newline then stars_then_newline cs else None) of
        Some rest \<Rightarrow> Some rest
      | None \<Rightarrow> if at_start then stars_then_newline s else None)"

text \<open>
  \<^verbatim>\<open>output.replace(re, "")\<close> with the \<^verbatim>\<open>g\<close> flag: scan from the left; where the
  expression matches, drop the match and go on behind it, otherwise keep the character and
  go on at the next one. Every match is at least one character long.
\<close>

function replace_all :: "bool \<Rightarrow> string \<Rightarrow> string" where
  "replace_all at_start s =
     (case match_at at_start s of
        Some rest \<Rightarrow> replace_all False rest
      | None \<Rightarrow> (case s of [] \<Rightarrow> [] | c # cs \<Rightarrow> c # replace_all False cs))"
  by pat_completeness auto
termination
proof (relation "measure (\<lambda>(b, s). length s)")
  fix at_start :: bool and s rest :: string
  assume m: "match_at at_start s = Some rest"
  have o: "length (opt_newline v) \<le> length v" for v
    by (cases v) (simp_all add: opt_newline_def)
  have d: "length (opt_newline (dropWhile (\<lambda>x. x = filler) u)) \<le> length u" for u
    using o [of "dropWhile (\<lambda>x. x = filler) u"] length_dropWhile_le [of "\<lambda>x. x = filler" u]
    by (rule le_trans)
  have st: "length r < length u" if "stars_then_newline u = Some r" for u r
    using that d [of "tl u"] by (cases u) (auto simp: stars_then_newline_def split: if_splits)
  from m have "length rest < length s"
    by (cases s) (auto simp: match_at_def split: option.splits if_splits dest: st)
  then show "((False, rest), (at_start, s)) \<in> measure (\<lambda>(b, s). length s)" by simp
next
  fix at_start :: bool and s :: string and c cs
  assume "match_at at_start s = None" "s = c # cs"
  then show "((False, cs), (at_start, s)) \<in> measure (\<lambda>(b, s). length s)" by simp
qed simp

declare replace_all.simps [simp del]

definition clearBufferChars :: "string \<Rightarrow> string" where
  "clearBufferChars output = replace_all True output"

text \<open>
  \<^verbatim>\<open>/Instruments Trace Complete.+Output : ([^\)]+)\)/\<close>, piece by piece.
\<close>

definition trace_complete :: string where
  "trace_complete = ''Instruments Trace Complete''"

definition output_tag :: string where
  "output_tag = ''Output : ''"

definition line_terminator :: "char \<Rightarrow> bool" where
  "line_terminator c = (c = CHR 0x0A \<or> c = CHR 0x0D)"

text \<open>
  \<^verbatim>\<open>([^\)]+)\)\<close>: the greedy class takes every character up to the first closing
  parenthesis; giving characters back cannot help, since the next one would not be a
  parenthesis. So the group is that run, which must be non-empty and followed by one.
\<close>

definition capture_group :: "string \<Rightarrow> string option" where
  "capture_group u =
     (let g = takeWhile (\<lambda>c. c \<noteq> CHR 0x29) u
      in if g \<noteq> [] \<and> dropWhile (\<lambda>c. c \<noteq> CHR 0x29) u \<noteq> [] then Some g else None)"

definition output_here :: "string \<Rightarrow> string option" where
  "output_here u =
     (if starts_with output_tag u then capture_group (drop (length output_tag) u) else None)"

text \<open>
  \<^verbatim>\<open>.*\<close> followed by the rest of the expression, greedy: the longest run of
  characters that are not line terminators is tried first, then shorter ones.
\<close>

fun any_then_output :: "string \<Rightarrow> string option" where
  "any_then_output [] = output_here []"
| "any_then_output (c # cs) =
     (if line_terminator c then output_here (c # cs)
      else (case any_then_output cs of
              Some r \<Rightarrow> Some r
            | None \<Rightarrow> output_here (c # cs)))"

text \<open>\<^verbatim>\<open>.+\<close> is one such character and then \<^verbatim>\<open>.*\<close>.\<close>

definition dot_plus_output :: "string \<Rightarrow> string option" where
  "dot_plus_output t =
     (case t of [] \<Rightarrow> None
              | c # cs \<Rightarrow> if line_terminator c then None else any_then_output cs)"

text \<open>\<^verbatim>\<open>re.exec(output)\<close>: the leftmost position at which the expression matches.\<close>

fun exec_re :: "string \<Rightarrow> string option" where
  "exec_re [] = None"
| "exec_re (c # cs) =
     (if starts_with trace_complete (c # cs) then
        (case dot_plus_output (drop (length trace_complete) (c # cs)) of
           Some r \<Rightarrow> Some r
         | None \<Rightarrow> exec_re cs)
      else exec_re cs)"

text \<open>The first group of the match; \<open>None\<close> is JavaScript's \<^verbatim>\<open>undefined\<close>.\<close>

definition lookForTraceDir :: "string \<Rightarrow> string option" where
  "lookForTraceDir output = exec_re output"


section \<open>The command handler\<close>

text \<open>
  A result sent by the peer is any JSON value. Callbacks and connections are opaque to the
  command handler, so each is modelled by an identifier; what the code does with them
  (calling a callback, writing to a connection) is recorded as an effect, in the order
  the code does it. A callback is not run by the model: it is assumed not to call back
  into the handler while it runs.
\<close>

datatype json = JNull | JBool bool | JNum int | JStr string | JObj "(string \<times> json) list"

type_synonym conn = nat

datatype effect =
    CmdCallback nat json
  | SocketWrite conn string
  | LaunchCb nat "string option"
  | ShutdownCb nat
  | ExitCb nat int "string option"
  | FindInstruments
  | Listen
  | Spawn nat
  | SigTerm nat
  | Killall
  | SocketDestroy conn
  | ServerClose
  | Uncaught

text \<open>
  \<open>CmdCallback cb r\<close> is \<^verbatim>\<open>curCommand.cb(r)\<close>; \<open>SocketWrite c cmd\<close> is
  \<^verbatim>\<open>c.write(JSON.stringify({nextCommand: cmd})); c.end()\<close>; \<open>Uncaught\<close> is a
  \<^verbatim>\<open>TypeError\<close> that leaves an event handler.
\<close>

record command =
  cmd :: string
  cb :: nat

text \<open>
  \<^verbatim>\<open>onReceiveCommand\<close> is either \<^verbatim>\<open>null\<close> or the closure made in
  \<^verbatim>\<open>handleCommand\<close>, which differs from call to call only in the connection it holds.
\<close>

record command_handler =
  curCommand :: "command option"
  commandQueue :: "command list"
  onReceiveCommand :: "conn option"

definition CommandHandler :: command_handler where
  "CommandHandler = \<lparr>curCommand = None, commandQueue = [], onReceiveCommand = None\<rparr>"

text \<open>
  The closure handed to \<^verbatim>\<open>waitForCommand\<close>. Both of its callers run it on a
  non-empty queue; on an empty one \<^verbatim>\<open>shift()\<close> gives \<^verbatim>\<open>undefined\<close> and reading
  \<^verbatim>\<open>.cmd\<close> throws.
\<close>

definition send_next :: "conn \<Rightarrow> command_handler \<Rightarrow> command_handler \<times> effect list" where
  "send_next c h =
     (case commandQueue h of
        [] \<Rightarrow> (h\<lparr>curCommand := None, onReceiveCommand := None\<rparr>, [Uncaught])
      | k # q \<Rightarrow>
          (h\<lparr>curCommand := Some k, commandQueue := q, onReceiveCommand := None\<rparr>,
           [SocketWrite c (cmd k)]))"

definition waitForCommand :: "conn \<Rightarrow> command_handler \<Rightarrow> command_handler \<times> effect list" where
  "waitForCommand c h =
     (if commandQueue h \<noteq> [] then send_next c h
      else (h\<lparr>onReceiveCommand := Some c\<rparr>, []))"

text \<open>
  \<^verbatim>\<open>handleCommand(data, c)\<close>; of \<^verbatim>\<open>data\<close> only the field \<^verbatim>\<open>result\<close> is read,
  \<open>None\<close> when it is \<^verbatim>\<open>undefined\<close>.
\<close>

definition handleCommand ::
  "json option \<Rightarrow> conn \<Rightarrow> command_handler \<Rightarrow> command_handler \<times> effect list" where
  "handleCommand res c h =
     (let result1 =
            (if res \<noteq> None \<and> curCommand h = None then res
             else if res = None \<and> curCommand h \<noteq> None then Some (JBool False)
             else res);
          (h1, fx1) =
            (case (result1, curCommand h) of
               (Some r, Some k) \<Rightarrow> (h\<lparr>curCommand := None\<rparr>, [CmdCallback (cb k) r])
             | _ \<Rightarrow> (h, []));
          (h2, fx2) = waitForCommand c h1
      in (h2, fx1 @ fx2))"

definition sendCommand ::
  "string \<Rightarrow> nat \<Rightarrow> command_handler \<Rightarrow> command_handler \<times> effect list" where
  "sendCommand cm f h =
     (let h1 = h\<lparr>commandQueue := commandQueue h @ [\<lparr>cmd = cm, cb = f\<rparr>]\<rparr>
      in case onReceiveCommand h1 of
           None \<Rightarrow> (h1, [])
         | Some c \<Rightarrow> send_next c h1)"

definition clean :: "command_handler \<Rightarrow> command_handler" where
  "clean h = h\<lparr>curCommand := None, onReceiveCommand := None\<rparr>"

text \<open>Runs of the handler alone: calls of its two entry points, in any order.\<close>

datatype handler_call = Send string nat | Handle "json option" conn

fun handler_step :: "handler_call \<Rightarrow> command_handler \<Rightarrow> command_handler \<times> effect list" where
  "handler_step (Send cm f) h = sendCommand cm f h"
| "handler_step (Handle res c) h = handleCommand res c h"

fun handler_run :: "handler_call list \<Rightarrow> command_handler \<Rightarrow> command_handler \<times> effect list" where
  "handler_run [] h = (h, [])"
| "handler_run (e # es) h =
     (let (h1, fx1) = handler_step e h; (h2, fx2) = handler_run es h1 in (h2, fx1 @ fx2))"

text \<open>What a run shows from outside.\<close>

fun enqueued :: "handler_call list \<Rightarrow> command list" where
  "enqueued [] = []"
| "enqueued (Send cm f # es) = \<lparr>cmd = cm, cb = f\<rparr> # enqueued es"
| "enqueued (Handle res c # es) = enqueued es"

fun dispatched :: "effect list \<Rightarrow> string list" where
  "dispatched [] = []"
| "dispatched (SocketWrite c cm # fx) = cm # dispatched fx"
| "dispatched (x # fx) = dispatched fx"

fun fired :: "effect list \<Rightarrow> nat list" where
  "fired [] = []"
| "fired (CmdCallback f r # fx) = f # fired fx"
| "fired (x # fx) = fired fx"

definition in_flight :: "command_handler \<Rightarrow> command list" where
  "in_flight h = (case curCommand h of None \<Rightarrow> [] | Some k \<Rightarrow> [k])"



text \<open>
  Two facts about a state of the handler and a step from it, used to follow a run:
  a dispatch hook is armed only while nothing is in flight, and a step retires the
  commands \<open>X\<close> and dispatches the commands \<open>Y\<close>.
\<close>

definition hook_idle :: "command_handler \<Rightarrow> bool" where
  "hook_idle h = (onReceiveCommand h = None \<or> curCommand h = None)"

definition advances ::
  "command_handler \<Rightarrow> command list \<Rightarrow> command_handler \<times> effect list \<Rightarrow> bool" where
  "advances h new R =
     (\<exists>X Y. fired (snd R) = map cb X \<and> dispatched (snd R) = map cmd Y \<and>
        in_flight h @ Y = X @ in_flight (fst R) \<and>
        commandQueue h @ new = Y @ commandQueue (fst R) \<and> hook_idle (fst R))"

section \<open>The instruments session\<close>

definition ERR_NEVER_CHECKED_IN :: string where
  "ERR_NEVER_CHECKED_IN = ''Instruments never checked in''"

definition ERR_CRASHED_ON_STARTUP :: string where
  "ERR_CRASHED_ON_STARTUP = ''Instruments crashed on startup''"

definition UNKNOWN_ERROR :: json where
  "UNKNOWN_ERROR =
     JObj [(''status'', JNum 13), (''value'', JStr ''Error parsing socket data from instruments'')]"

definition ERR_ALREADY_LAUNCHED :: string where
  "ERR_ALREADY_LAUNCHED = ''Called start() but we already launched''"

definition ERR_NOT_FOUND :: string where
  "ERR_NOT_FOUND = ''Could not find the instruments binary. Please ensure `xcrun -find instruments` can locate it.''"

text \<open>
  What the end handler of a connection reads of the parsed document: whether it has a
  property \<^verbatim>\<open>event\<close> and the property key that tag stands for, and the property
  \<^verbatim>\<open>result\<close> if it is defined. \<^verbatim>\<open>JSON.parse\<close> is the platform's; the model takes it
  as a parameter that answers \<open>None\<close> where it throws.
\<close>

record socket_data =
  event :: "string option"
  result :: "json option"

type_synonym json_parse = "string \<Rightarrow> socket_data option"

datatype exit_handler = DefaultExitHandler | ExitHandler "nat option"

datatype server = NoServer | ServerCreated | ServerListening | ServerClosed

datatype timer = ConnectTimer | TermTimer

datatype handler_ref = TheCommandHandler

datatype js_error = TypeError

text \<open>
  The fields of the session that its methods read or write. The constructor makes one
  \<^verbatim>\<open>CommandHandler\<close> object, \<open>handler_obj\<close>; the field \<^verbatim>\<open>commandHandler\<close> refers to it
  or is \<^verbatim>\<open>null\<close>, and \<^verbatim>\<open>eventRouter.cmd\<close> is bound to the object itself for good.
  \<^verbatim>\<open>flakeyRetries\<close> is a number of retries. The last six fields are not fields of the
  session but the environment's: the timeouts that are armed, the requests that have not
  been answered, the processes spawned and the connections made.
\<close>

record instruments =
  launchTries :: nat
  flakeyRetries :: nat
  neverConnected :: bool
  ignoreStartupExit :: bool
  launchHandlerCalledBack :: bool
  launchHandlerCb :: "nat option"
  exitHandler :: exit_handler
  socketConnectTimeout :: "nat option"
  termTimer :: "nat option"
  killTimer :: "nat option"
  hasConnected :: bool
  traceDir :: "string option"
  proc :: "nat option"
  shutdownCb :: "nat option"
  didLaunch :: bool
  bufferedData :: string
  instrumentsPath :: string
  instrumentsExited :: bool
  currentSocket :: "conn option"
  socketServer :: server
  commandHandler :: "handler_ref option"
  handler_obj :: command_handler
  timers :: "(nat \<times> timer) list"
  nextTimer :: nat
  lookups :: nat
  listens :: nat
  spawned :: nat
  conns :: "conn list"

definition Instruments :: "nat \<Rightarrow> bool \<Rightarrow> instruments" where
  "Instruments retries ignoreExit =
     \<lparr>launchTries = 0, flakeyRetries = retries, neverConnected = False,
      ignoreStartupExit = ignoreExit, launchHandlerCalledBack = False,
      launchHandlerCb = None, exitHandler = DefaultExitHandler,
      socketConnectTimeout = None, termTimer = None, killTimer = None,
      hasConnected = False, traceDir = None, proc = None, shutdownCb = None,
      didLaunch = False, bufferedData = [], instrumentsPath = [],
      instrumentsExited = False, currentSocket = None, socketServer = NoServer,
      commandHandler = Some TheCommandHandler, handler_obj = CommandHandler,
      timers = [], nextTimer = 0, lookups = 0, listens = 0, spawned = 0, conns = []\<rparr>"

definition setTimeout :: "timer \<Rightarrow> instruments \<Rightarrow> nat \<times> instruments" where
  "setTimeout k s =
     (nextTimer s, s\<lparr>timers := timers s @ [(nextTimer s, k)], nextTimer := nextTimer s + 1\<rparr>)"

definition clearTimeout :: "nat option \<Rightarrow> instruments \<Rightarrow> instruments" where
  "clearTimeout t s =
     (case t of None \<Rightarrow> s
              | Some i \<Rightarrow> s\<lparr>timers := filter (\<lambda>x. fst x \<noteq> i) (timers s)\<rparr>)"

text \<open>
  The class has no method \<^verbatim>\<open>killProc\<close>: the module defines none, and the only function
  of that name is \<^verbatim>\<open>helpers.killProc\<close>, which \<^verbatim>\<open>termProc\<close> calls by that name. So
  \<^verbatim>\<open>this.killProc\<close> is \<^verbatim>\<open>undefined\<close>, and each of the three calls
  \<^verbatim>\<open>this.killProc()\<close>, two in \<^verbatim>\<open>launchHandler\<close> and one in
  \<^verbatim>\<open>onSocketNeverConnect\<close>, throws a \<^verbatim>\<open>TypeError\<close>. None of them stands in a
  \<^verbatim>\<open>try\<close> block, and every caller of the two methods calls them as its last
  statement on that path, so the exception leaves the event handler with the session as
  it is at the throw.
\<close>

text \<open>
  The tail of \<^verbatim>\<open>launchHandler\<close>, from \<^verbatim>\<open>this.launchHandlerCalledBack = true\<close>:
  with an error, \<^verbatim>\<open>if (err) this.killProc()\<close> throws before the launch callback is
  called.
\<close>

definition call_back :: "string option \<Rightarrow> instruments \<Rightarrow> instruments \<times> effect list" where
  "call_back err s =
     (let s1 = s\<lparr>launchHandlerCalledBack := True\<rparr>
      in if err \<noteq> None then (s1, [Uncaught])
         else (case launchHandlerCb s1 of
                 None \<Rightarrow> (s1, [Uncaught])
               | Some f \<Rightarrow> (s1, [LaunchCb f err])))"

text \<open>The part of \<^verbatim>\<open>launch\<close> behind the preparation of the temporary directory.\<close>

definition spawn_and_wait :: "instruments \<Rightarrow> instruments \<times> effect list" where
  "spawn_and_wait s =
     (let p = spawned s;
          s1 = s\<lparr>instrumentsExited := False, proc := Some p, spawned := p + 1\<rparr>;
          (t, s2) = setTimeout ConnectTimer s1
      in (s2\<lparr>socketConnectTimeout := Some t\<rparr>, [Spawn p]))"

text \<open>
  \<^verbatim>\<open>launchHandler(err)\<close>. In the retry branch the retry count is incremented and
  \<^verbatim>\<open>this.killProc()\<close> throws before \<^verbatim>\<open>this.launch\<close> is called.
\<close>

definition launchHandler :: "string option \<Rightarrow> instruments \<Rightarrow> instruments \<times> effect list" where
  "launchHandler err s =
     (if \<not> launchHandlerCalledBack s then
        (let s1 = clearTimeout (socketConnectTimeout s) s
         in case err of
              None \<Rightarrow> call_back None (s1\<lparr>didLaunch := True, neverConnected := False\<rparr>)
            | Some m \<Rightarrow>
                if launchTries s1 < flakeyRetries s1 \<and>
                   (m = ERR_NEVER_CHECKED_IN \<or> m = ERR_CRASHED_ON_STARTUP)
                then (s1\<lparr>launchTries := launchTries s1 + 1\<rparr>, [Uncaught])
                else call_back (Some m) s1)
      else (s, []))"

text \<open>
  \<^verbatim>\<open>launch(cb)\<close>, where \<^verbatim>\<open>cb\<close> is the callback \<^verbatim>\<open>start\<close> passes:
  \<^verbatim>\<open>if (err) return this.launchHandler(err)\<close>; \<open>tmp\<close> is the message of what the
  preparation of the temporary directory throws, if it does.
\<close>

definition launch :: "string option \<Rightarrow> instruments \<Rightarrow> instruments \<times> effect list" where
  "launch tmp s =
     (case tmp of
        Some e \<Rightarrow> launchHandler (Some e) s
      | None \<Rightarrow> spawn_and_wait s)"



definition start :: "nat \<Rightarrow> nat option \<Rightarrow> instruments \<Rightarrow> instruments \<times> effect list" where
  "start launchCb unexpectedExitCb s =
     (if didLaunch s then (s, [LaunchCb launchCb (Some ERR_ALREADY_LAUNCHED)])
      else (s\<lparr>launchHandlerCb := Some launchCb, exitHandler := ExitHandler unexpectedExitCb,
              lookups := lookups s + 1\<rparr>,
            [FindInstruments]))"

text \<open>
  \<^verbatim>\<open>initSocketServer(cb)\<close> with the callback \<^verbatim>\<open>start\<close> passes, up to the call of
  \<^verbatim>\<open>listen\<close>; \<open>unlinked\<close> is the message of what \<^verbatim>\<open>fs.unlinkSync\<close> throws, if it does.
\<close>

definition initSocketServer ::
  "string option \<Rightarrow> instruments \<Rightarrow> instruments \<times> effect list" where
  "initSocketServer unlinked s =
     (let s1 = s\<lparr>socketServer := ServerCreated\<rparr>;
          failed = (case unlinked of None \<Rightarrow> None
                    | Some m \<Rightarrow> if \<not> contains ''ENOENT'' m then Some m else None)
      in case failed of
           Some m \<Rightarrow> launchHandler (Some m) s1
         | None \<Rightarrow> (s1\<lparr>listens := listens s1 + 1\<rparr>, [Listen]))"

text \<open>
  The callback \<^verbatim>\<open>start\<close> passes to \<^verbatim>\<open>helpers.getInstrumentsPath\<close>, which answers with
  a path or with its one error.
\<close>

definition on_instruments_path ::
  "string option \<Rightarrow> string option \<Rightarrow> instruments \<Rightarrow> instruments \<times> effect list" where
  "on_instruments_path found unlinked s =
     (case found of
        None \<Rightarrow> launchHandler (Some ERR_NOT_FOUND) s
      | Some path \<Rightarrow> initSocketServer unlinked (s\<lparr>instrumentsPath := path\<rparr>))"

text \<open>The callback of \<^verbatim>\<open>listen\<close>, continued by the callback \<^verbatim>\<open>start\<close> gave.\<close>

definition on_listening ::
  "string option \<Rightarrow> string option \<Rightarrow> instruments \<Rightarrow> instruments \<times> effect list" where
  "on_listening err tmp s =
     (case err of
        Some m \<Rightarrow> launchHandler (Some m) s
      | None \<Rightarrow> launch tmp (s\<lparr>socketServer := ServerListening\<rparr>))"

definition spawn_error :: "string \<Rightarrow> string" where
  "spawn_error msg = ''Unable to spawn instruments: '' @ msg"

text \<open>The handler of the child's \<^verbatim>\<open>error\<close> event, set in \<^verbatim>\<open>launch\<close>.\<close>

definition on_proc_error :: "string \<Rightarrow> instruments \<Rightarrow> instruments \<times> effect list" where
  "on_proc_error msg s =
     (if contains ''ENOENT'' msg then
        (let s1 = s\<lparr>proc := None\<rparr>
         in if \<not> instrumentsExited s1 then
              launchHandler (Some (spawn_error msg)) (s1\<lparr>instrumentsExited := True\<rparr>)
            else (s1, []))
      else (s, []))"

definition cleanupInstruments :: "instruments \<Rightarrow> instruments + instruments \<times> effect list" where
  "cleanupInstruments s =
     (let s1 = s\<lparr>proc := None\<rparr>
      in case commandHandler s1 of
           None \<Rightarrow> Inl s1
         | Some r \<Rightarrow>
             (let s2 = s1\<lparr>handler_obj := clean (handler_obj s1), commandHandler := None\<rparr>
              in case currentSocket s2 of
                   None \<Rightarrow> Inr (s2, [])
                 | Some c \<Rightarrow> Inr (s2\<lparr>socketServer := ServerClosed\<rparr>, [SocketDestroy c, ServerClose])))"

text \<open>
  In \<^verbatim>\<open>cleanupInstruments\<close> the call \<^verbatim>\<open>this.commandHandler.clean()\<close> throws when the
  field is \<^verbatim>\<open>null\<close>; \<open>Inl\<close> is the session as the exception leaves it.
\<close>

definition onInstrumentsExit :: "int \<Rightarrow> instruments \<Rightarrow> instruments \<times> effect list" where
  "onInstrumentsExit code s =
     (let s1 = (if termTimer s \<noteq> None then clearTimeout (termTimer s) s else s);
          s2 = (if killTimer s1 \<noteq> None then clearTimeout (killTimer s1) s1 else s1)
      in if neverConnected s2 then
           launchHandler (Some ERR_NEVER_CHECKED_IN) (s2\<lparr>neverConnected := False\<rparr>)
         else if \<not> didLaunch s2 \<and> \<not> ignoreStartupExit s2 then
           launchHandler (Some ERR_CRASHED_ON_STARTUP) s2
         else
           (case cleanupInstruments s2 of
              Inl s3 \<Rightarrow> (s3, [Uncaught])
            | Inr (s3, fx) \<Rightarrow>
                if ignoreStartupExit s3 then
                  (case launchHandler None s3 of (s4, fx4) \<Rightarrow> (s4, fx @ fx4))
                else
                  (case shutdownCb s3 of
                     Some f \<Rightarrow> (s3\<lparr>shutdownCb := None\<rparr>, fx @ [ShutdownCb f])
                   | None \<Rightarrow>
                       (case exitHandler s3 of
                          DefaultExitHandler \<Rightarrow> (s3, fx)
                        | ExitHandler None \<Rightarrow> (s3, fx @ [Uncaught])
                        | ExitHandler (Some f) \<Rightarrow> (s3, fx @ [ExitCb f code (traceDir s3)])))))"

text \<open>The handler of the child's \<^verbatim>\<open>exit\<close> event, set in \<^verbatim>\<open>launch\<close>.\<close>

definition on_proc_exit :: "int \<Rightarrow> instruments \<Rightarrow> instruments \<times> effect list" where
  "on_proc_exit code s =
     (if \<not> instrumentsExited s then onInstrumentsExit code (s\<lparr>instrumentsExited := True\<rparr>)
      else (s, []))"

text \<open>
  \<^verbatim>\<open>onSocketNeverConnect\<close> sets the flag, and then \<^verbatim>\<open>this.killProc()\<close> throws out
  of the timer callback.
\<close>

definition onSocketNeverConnect :: "instruments \<Rightarrow> instruments \<times> effect list" where
  "onSocketNeverConnect s = (s\<lparr>neverConnected := True\<rparr>, [Uncaught])"

definition termProc :: "instruments \<Rightarrow> instruments \<times> effect list" where
  "termProc s =
     (case proc s of
        None \<Rightarrow> (s, [])
      | Some p \<Rightarrow> (case setTimeout TermTimer s of (t, s1) \<Rightarrow> (s1\<lparr>termTimer := Some t\<rparr>, [SigTerm p])))"

definition shutdown :: "nat \<Rightarrow> instruments \<Rightarrow> instruments \<times> effect list" where
  "shutdown f s = (case termProc s of (s1, fx) \<Rightarrow> (s1\<lparr>shutdownCb := Some f\<rparr>, fx))"

text \<open>
  A timeout that is armed fires: the launch timeout runs \<^verbatim>\<open>onSocketNeverConnect\<close>, the
  one set in \<^verbatim>\<open>termProc\<close> runs \<^verbatim>\<open>helpers.killProc\<close>.
\<close>

definition on_timeout :: "nat \<Rightarrow> instruments \<Rightarrow> instruments \<times> effect list" where
  "on_timeout i s =
     (case map_of (timers s) i of
        None \<Rightarrow> (s, [])
      | Some k \<Rightarrow>
          (let s1 = s\<lparr>timers := filter (\<lambda>x. fst x \<noteq> i) (timers s)\<rparr>
           in case k of
                ConnectTimer \<Rightarrow> onSocketNeverConnect s1
              | TermTimer \<Rightarrow> (s1, [Killall])))"

definition onSocketConnect :: "conn \<Rightarrow> instruments \<Rightarrow> instruments \<times> effect list" where
  "onSocketConnect c s =
     (case (if \<not> hasConnected s then launchHandler None (s\<lparr>hasConnected := True\<rparr>)
            else (s, [])) of
        (s1, fx) \<Rightarrow> (s1\<lparr>currentSocket := Some c, conns := c # conns s1\<rparr>, fx))"

text \<open>
  The handler of a connection's \<^verbatim>\<open>end\<close> event. \<^verbatim>\<open>eventRouter\<close> has the one key
  \<^verbatim>\<open>cmd\<close>.
\<close>

definition on_end :: "json_parse \<Rightarrow> conn \<Rightarrow> instruments \<Rightarrow> instruments \<times> effect list" where
  "on_end parse c s =
     (let s1 = s\<lparr>bufferedData := []\<rparr>;
          data = (case parse (bufferedData s) of
                    Some d \<Rightarrow> d
                  | None \<Rightarrow> \<lparr>event = Some ''cmd'', result = Some UNKNOWN_ERROR\<rparr>)
      in case event data of
           None \<Rightarrow> (s1, [])
         | Some e \<Rightarrow>
             if e \<noteq> ''cmd'' then (s1, [])
             else (case handleCommand (result data) c (handler_obj s1) of
                     (h, fx) \<Rightarrow> (s1\<lparr>handler_obj := h\<rparr>, fx)))"

definition outputStreamHandler :: "string \<Rightarrow> instruments \<Rightarrow> instruments" where
  "outputStreamHandler chunk s =
     (case lookForTraceDir (clearBufferChars chunk) of
        None \<Rightarrow> s
      | Some d \<Rightarrow> if d \<noteq> [] then s\<lparr>traceDir := Some d\<rparr> else s)"

text \<open>\<^verbatim>\<open>Instruments.prototype.sendCommand\<close>; calling a method of \<^verbatim>\<open>null\<close> throws.\<close>

definition instruments_sendCommand ::
  "string \<Rightarrow> nat \<Rightarrow> instruments \<Rightarrow> js_error + instruments \<times> effect list" where
  "instruments_sendCommand cm f s =
     (case commandHandler s of
        None \<Rightarrow> Inl TypeError
      | Some r \<Rightarrow> (case sendCommand cm f (handler_obj s) of
                    (h, fx) \<Rightarrow> Inr (s\<lparr>handler_obj := h\<rparr>, fx)))"

text \<open>
  What can happen to a session: the three calls of its interface, and the callbacks and
  events the session has asked for. One that nothing has asked for (an answer without a
  request, an event of a process never spawned, a timeout not armed, a connection to a
  server that does not listen, data on a connection never made) does not happen. What
  the child process writes to its standard error is logged and passed on, and changes
  nothing in the session; it is left out.
\<close>

datatype io_event =
    Start nat "nat option"
  | SendCommand string nat
  | Shutdown nat
  | FoundInstruments "string option" "string option"
  | Listening "string option" "string option"
  | ProcError string
  | ProcExit int
  | Stdout string
  | Timeout nat
  | Connect conn
  | Data conn string
  | End conn
  | Close conn

fun step :: "json_parse \<Rightarrow> io_event \<Rightarrow> instruments \<Rightarrow> instruments \<times> effect list" where
  "step P (Start launchCb unexpectedExitCb) s = start launchCb unexpectedExitCb s"
| "step P (SendCommand cm f) s =
     (case instruments_sendCommand cm f s of Inl e \<Rightarrow> (s, [Uncaught]) | Inr r \<Rightarrow> r)"
| "step P (Shutdown f) s = shutdown f s"
| "step P (FoundInstruments found unlinked) s =
     (if 0 < lookups s then on_instruments_path found unlinked (s\<lparr>lookups := lookups s - 1\<rparr>)
      else (s, []))"
| "step P (Listening err tmp) s =
     (if 0 < listens s then on_listening err tmp (s\<lparr>listens := listens s - 1\<rparr>) else (s, []))"
| "step P (ProcError msg) s = (if 0 < spawned s then on_proc_error msg s else (s, []))"
| "step P (ProcExit code) s = (if 0 < spawned s then on_proc_exit code s else (s, []))"
| "step P (Stdout chunk) s = (if 0 < spawned s then (outputStreamHandler chunk s, []) else (s, []))"
| "step P (Timeout i) s = on_timeout i s"
| "step P (Connect c) s =
     (if socketServer s = ServerListening then onSocketConnect c s else (s, []))"
| "step P (Data c d) s =
     (if c \<in> set (conns s) then (s\<lparr>bufferedData := bufferedData s @ d\<rparr>, []) else (s, []))"
| "step P (End c) s = (if c \<in> set (conns s) then on_end P c s else (s, []))"
| "step P (Close c) s =
     (if c \<in> set (conns s) then (s\<lparr>currentSocket := None, conns := removeAll c (conns s)\<rparr>, [])
      else (s, []))"

fun run :: "json_parse \<Rightarrow> io_event list \<Rightarrow> instruments \<Rightarrow> instruments \<times> effect list" where
  "run P [] s = (s, [])"
| "run P (e # es) s =
     (case step P e s of (s1, fx1) \<Rightarrow> (case run P es s1 of (s2, fx2) \<Rightarrow> (s2, fx1 @ fx2)))"

fun launch_callbacks :: "effect list \<Rightarrow> (nat \<times> string option) list" where
  "launch_callbacks [] = []"
| "launch_callbacks (LaunchCb f err # fx) = (f, err) # launch_callbacks fx"
| "launch_callbacks (x # fx) = launch_callbacks fx"

fun is_start :: "io_event \<Rightarrow> bool" where
  "is_start (Start launchCb unexpectedExitCb) = True"
| "is_start e = False"

text \<open>
  Bookkeeping for the proofs about runs: what a step that is not a call of
  \<^verbatim>\<open>start\<close> keeps of the session (the retry budget, the launch callback, the bound on
  the retries, a launch callback once called, a launch once done) together with the
  calls of the launch callback it makes; the fields this depends on; the part of it
  that every step keeps; and the processes a list of effects spawns.
\<close>

definition keeps :: "instruments \<Rightarrow> instruments \<times> effect list \<Rightarrow> bool" where
  "keeps s R =
     (flakeyRetries (fst R) = flakeyRetries s \<and>
      launchHandlerCb (fst R) = launchHandlerCb s \<and>
      (launchTries s \<le> flakeyRetries s \<longrightarrow> launchTries (fst R) \<le> flakeyRetries s) \<and>
      (launchHandlerCalledBack s \<longrightarrow> launchHandlerCalledBack (fst R)) \<and>
      length (launch_callbacks (snd R)) \<le>
        (if launchHandlerCalledBack (fst R) \<and> \<not> launchHandlerCalledBack s then 1 else 0) \<and>
      (\<forall>x \<in> set (launch_callbacks (snd R)). launchHandlerCb s = Some (fst x)) \<and>
      (didLaunch s \<longrightarrow> didLaunch (fst R)) \<and>
      (\<forall>x \<in> set (launch_callbacks (snd R)). snd x = None \<longrightarrow> didLaunch (fst R)))"

definition agrees :: "instruments \<Rightarrow> instruments \<Rightarrow> bool" where
  "agrees s s' =
     (flakeyRetries s' = flakeyRetries s \<and> launchHandlerCb s' = launchHandlerCb s \<and>
      launchTries s' = launchTries s \<and> launchHandlerCalledBack s' = launchHandlerCalledBack s \<and>
      (didLaunch s \<longrightarrow> didLaunch s'))"

definition within_budget :: "instruments \<Rightarrow> instruments \<times> effect list \<Rightarrow> bool" where
  "within_budget s R =
     (flakeyRetries (fst R) = flakeyRetries s \<and>
      (launchTries s \<le> flakeyRetries s \<longrightarrow> launchTries (fst R) \<le> flakeyRetries s))"

fun spawns :: "effect list \<Rightarrow> nat list" where
  "spawns [] = []"
| "spawns (Spawn p # fx) = p # spawns fx"
| "spawns (x # fx) = spawns fx"

text \<open>
  A session whose first child process has been spawned and has not checked in yet, with a
  budget of one retry.
\<close>

definition awaiting_check_in :: instruments where
  "awaiting_check_in =
     fst (run (\<lambda>d. None)
            [Start 1 None, FoundInstruments (Some ''/usr/bin/instruments'') None,
             Listening None None]
            (Instruments 1 False))"

text \<open>
  A session that has spawned a child process and waits for its first connection.
\<close>

definition launching :: "nat \<Rightarrow> instruments \<Rightarrow> bool" where
  "launching f s =
     (\<not> launchHandlerCalledBack s \<and> \<not> didLaunch s \<and> \<not> ignoreStartupExit s \<and>
      \<not> neverConnected s \<and> \<not> instrumentsExited s \<and> \<not> hasConnected s \<and> 0 < spawned s \<and>
      socketServer s = ServerListening \<and> launchHandlerCb s = Some f)"

text \<open>
  The events of a start that reaches the spawning of the child process.
\<close>

definition startup :: "nat \<Rightarrow> nat option \<Rightarrow> string \<Rightarrow> io_event list" where
  "startup f x path = [Start f x, FoundInstruments (Some path) None, Listening None None]"

text \<open>
  Sample environments for the closed examples below: a parser that rejects every buffer,
  a parser that knows two documents of the peer and rejects the rest, and runs of a
  session.
\<close>

definition no_parse :: json_parse where
  "no_parse d = None"

definition peer_parse :: json_parse where
  \<open>peer_parse d =
     (if d = ''{"event":"cmd"}'' then Some \<lparr>event = Some ''cmd'', result = None\<rparr>
      else if d = ''{"event":"cmd","result":1}''
           then Some \<lparr>event = Some ''cmd'', result = Some (JNum 1)\<rparr>
      else None)\<close>

definition malformed_run :: "io_event list" where
  \<open>malformed_run =
     [Start 1 (Some 2), FoundInstruments (Some ''/usr/bin/instruments'') None,
      Listening None None, Connect 0, SendCommand ''a'' 10, SendCommand ''b'' 11,
      Data 0 ''{"event":"cmd"}'', End 0, Close 0, Connect 1, Data 1 ''{"event":"cmd","resu'']\<close>

text \<open>
  A launch once done stays done, and a launch callback called without an error means
  the launch is done.
\<close>

definition launched :: "instruments \<Rightarrow> instruments \<times> effect list \<Rightarrow> bool" where
  "launched s R =
     ((didLaunch s \<longrightarrow> didLaunch (fst R)) \<and>
      (\<forall>x \<in> set (launch_callbacks (snd R)). snd x = None \<longrightarrow> didLaunch (fst R)))"

definition check_in_run :: "io_event list" where
  "check_in_run =
     [Start 1 (Some 2), FoundInstruments (Some ''/usr/bin/instruments'') None,
      Listening None None, Connect 0]"

text \<open>
  A run in which the child process exits while command \<open>a\<close> is in flight and command
  \<open>b\<close> is pending, the connection being closed, and what the peer side sends after it.
\<close>

definition exit_run :: "io_event list" where
  \<open>exit_run =
     [Start 1 (Some 2), FoundInstruments (Some ''/usr/bin/instruments'') None,
      Listening None None, Connect 0, SendCommand ''a'' 10, SendCommand ''b'' 11,
      Data 0 ''{"event":"cmd"}'', End 0, Close 0, ProcExit 0]\<close>

definition after_exit_run :: "io_event list" where
  \<open>after_exit_run =
     [Connect 1, Data 1 ''{"event":"cmd","result":1}'', End 1, Close 1,
      Connect 2, Data 2 ''{"event":"cmd","result":1}'', End 2]\<close>

text \<open>
  The shutdown callbacks a list of effects calls, and a session in which nothing has
  been started: no child process, no request, no server, no timeout, no connection.
\<close>

fun shutdown_callbacks :: "effect list \<Rightarrow> nat list" where
  "shutdown_callbacks [] = []"
| "shutdown_callbacks (ShutdownCb f # fx) = f # shutdown_callbacks fx"
| "shutdown_callbacks (x # fx) = shutdown_callbacks fx"

definition never_started :: "instruments \<Rightarrow> bool" where
  "never_started s =
     (proc s = None \<and> spawned s = 0 \<and> lookups s = 0 \<and> listens s = 0 \<and>
      socketServer s = NoServer \<and> timers s = [] \<and> conns s = [])"

text \<open>
  Shapes of chunks and of outputs: text that begins with the filler character, text
  with a line that begins with it, a chunk in which a filler character follows the line
  feed that ends a filler run, and the characters that are neither filler nor line feed.
\<close>

definition starts_filler :: "string \<Rightarrow> bool" where
  "starts_filler s = (case s of [] \<Rightarrow> False | c # cs \<Rightarrow> c = filler)"

fun newline_then_filler :: "string \<Rightarrow> bool" where
  "newline_then_filler [] = False"
| "newline_then_filler (c # cs) = ((c = newline \<and> starts_filler cs) \<or> newline_then_filler cs)"

definition adjacent_filler_lines :: "string \<Rightarrow> bool" where
  "adjacent_filler_lines s = contains [filler, newline, filler] s"

definition genuine :: "char \<Rightarrow> bool" where
  "genuine c = (c \<noteq> filler \<and> c \<noteq> newline)"

section \<open>Properties of the command handler\<close>

lemma handleCommand_advances: "advances h [] (handleCommand r c h)"
proof (cases "curCommand h")
  case None
  show ?thesis
  proof (cases "commandQueue h")
    case Nil
    with None show ?thesis
      by (cases r) (simp_all add: advances_def handleCommand_def waitForCommand_def
                       send_next_def in_flight_def hook_idle_def)
  next
    case (Cons k q)
    with None have "fired (snd (handleCommand r c h)) = map cb [] \<and>
        dispatched (snd (handleCommand r c h)) = map cmd [k] \<and>
        in_flight h @ [k] = [] @ in_flight (fst (handleCommand r c h)) \<and>
        commandQueue h @ [] = [k] @ commandQueue (fst (handleCommand r c h)) \<and>
        hook_idle (fst (handleCommand r c h))"
      by (cases r) (simp_all add: handleCommand_def waitForCommand_def
                       send_next_def in_flight_def hook_idle_def)
    then show ?thesis unfolding advances_def by blast
  qed
next
  case (Some j)
  show ?thesis
  proof (cases "commandQueue h")
    case Nil
    with Some have "fired (snd (handleCommand r c h)) = map cb [j] \<and>
        dispatched (snd (handleCommand r c h)) = map cmd [] \<and>
        in_flight h @ [] = [j] @ in_flight (fst (handleCommand r c h)) \<and>
        commandQueue h @ [] = [] @ commandQueue (fst (handleCommand r c h)) \<and>
        hook_idle (fst (handleCommand r c h))"
      by (cases r) (simp_all add: handleCommand_def waitForCommand_def
                       send_next_def in_flight_def hook_idle_def)
    then show ?thesis unfolding advances_def by blast
  next
    case (Cons k q)
    with Some have "fired (snd (handleCommand r c h)) = map cb [j] \<and>
        dispatched (snd (handleCommand r c h)) = map cmd [k] \<and>
        in_flight h @ [k] = [j] @ in_flight (fst (handleCommand r c h)) \<and>
        commandQueue h @ [] = [k] @ commandQueue (fst (handleCommand r c h)) \<and>
        hook_idle (fst (handleCommand r c h))"
      by (cases r) (simp_all add: handleCommand_def waitForCommand_def
                       send_next_def in_flight_def hook_idle_def)
    then show ?thesis unfolding advances_def by blast
  qed
qed

lemma sendCommand_advances:
  assumes "hook_idle h"
  shows "advances h [\<lparr>cmd = cm, cb = f\<rparr>] (sendCommand cm f h)"
proof (cases "onReceiveCommand h")
  case None
  then have "fired (snd (sendCommand cm f h)) = map cb [] \<and>
        dispatched (snd (sendCommand cm f h)) = map cmd [] \<and>
        in_flight h @ [] = [] @ in_flight (fst (sendCommand cm f h)) \<and>
        commandQueue h @ [\<lparr>cmd = cm, cb = f\<rparr>] = [] @ commandQueue (fst (sendCommand cm f h)) \<and>
        hook_idle (fst (sendCommand cm f h))"
    by (simp add: sendCommand_def in_flight_def hook_idle_def)
  then show ?thesis unfolding advances_def by blast
next
  case (Some c)
  with assms have cur: "curCommand h = None" by (simp add: hook_idle_def)
  obtain k q where kq: "commandQueue h @ [\<lparr>cmd = cm, cb = f\<rparr>] = k # q"
    by (cases "commandQueue h") auto
  with Some cur have "fired (snd (sendCommand cm f h)) = map cb [] \<and>
        dispatched (snd (sendCommand cm f h)) = map cmd [k] \<and>
        in_flight h @ [k] = [] @ in_flight (fst (sendCommand cm f h)) \<and>
        commandQueue h @ [\<lparr>cmd = cm, cb = f\<rparr>] = [k] @ commandQueue (fst (sendCommand cm f h)) \<and>
        hook_idle (fst (sendCommand cm f h))"
    by (simp add: sendCommand_def send_next_def in_flight_def hook_idle_def)
  then show ?thesis unfolding advances_def by blast
qed

lemma advances_hook_idle: "advances h new R \<Longrightarrow> hook_idle (fst R)"
  by (auto simp: advances_def)

lemma advances_trans:
  assumes 1: "advances h new1 (h1, fx1)" and 2: "advances h1 new2 (h2, fx2)"
  shows "advances h (new1 @ new2) (h2, fx1 @ fx2)"
proof -
  from 1 obtain X1 Y1 where a: "fired fx1 = map cb X1" "dispatched fx1 = map cmd Y1"
      "in_flight h @ Y1 = X1 @ in_flight h1" "commandQueue h @ new1 = Y1 @ commandQueue h1"
    by (auto simp: advances_def)
  from 2 obtain X2 Y2 where b: "fired fx2 = map cb X2" "dispatched fx2 = map cmd Y2"
      "in_flight h1 @ Y2 = X2 @ in_flight h2" "commandQueue h1 @ new2 = Y2 @ commandQueue h2"
      "hook_idle h2"
    by (auto simp: advances_def)
  have f: "fired (fx1 @ fx2) = fired fx1 @ fired fx2" for fx1 fx2
    by (induction fx1 rule: fired.induct) simp_all
  have d: "dispatched (fx1 @ fx2) = dispatched fx1 @ dispatched fx2" for fx1 fx2
    by (induction fx1 rule: dispatched.induct) simp_all
  have "in_flight h @ (Y1 @ Y2) = (X1 @ X2) @ in_flight h2"
    using a(3) b(3) by (metis append.assoc)
  moreover have "commandQueue h @ (new1 @ new2) = (Y1 @ Y2) @ commandQueue h2"
    using a(4) b(4) by (metis append.assoc)
  moreover have "fired (fx1 @ fx2) = map cb (X1 @ X2)" using a(1) b(1) f by simp
  moreover have "dispatched (fx1 @ fx2) = map cmd (Y1 @ Y2)" using a(2) b(2) d by simp
  ultimately show ?thesis using b(5) unfolding advances_def fst_conv snd_conv by blast
qed

lemma handler_run_advances:
  "hook_idle h \<Longrightarrow> advances h (enqueued es) (handler_run es h)"
proof (induction es arbitrary: h)
  case Nil
  then have "fired [] = map cb [] \<and> dispatched [] = map cmd [] \<and>
     in_flight h @ [] = [] @ in_flight h \<and> commandQueue h @ [] = [] @ commandQueue h \<and> hook_idle h"
    by simp
  then show ?case unfolding advances_def handler_run.simps enqueued.simps fst_conv snd_conv by blast
next
  case (Cons e es)
  obtain h1 fx1 where s: "handler_step e h = (h1, fx1)" by (cases "handler_step e h")
  obtain h2 fx2 where r: "handler_run es h1 = (h2, fx2)" by (cases "handler_run es h1")
  have st: "advances h (enqueued [e]) (h1, fx1)"
  proof (cases e)
    case (Send cm f)
    with s sendCommand_advances [OF Cons.prems, of cm f] show ?thesis by simp
  next
    case (Handle r c)
    with s handleCommand_advances [of h r c] show ?thesis by simp
  qed
  then have "hook_idle h1" using advances_hook_idle by fastforce
  then have "advances h1 (enqueued es) (h2, fx2)" using Cons.IH r by metis
  with st have "advances h (enqueued [e] @ enqueued es) (h2, fx1 @ fx2)"
    by (rule advances_trans)
  moreover have "enqueued [e] @ enqueued es = enqueued (e # es)" by (cases e) simp_all
  ultimately show ?case using s r by simp
qed

text \<open>
  C1. Whatever calls of \<^verbatim>\<open>sendCommand\<close> and \<^verbatim>\<open>handleCommand\<close> a fresh handler
  receives, in whatever order: the commands enqueued so far are, in the order of their
  enqueueing, those retired, then the one in flight if there is one, then those still
  pending. The commands written to the peer are the retired ones and the one in flight,
  in that order; the callbacks fired are those of the retired commands, one each, in
  that order; and never more than one command is in flight.
\<close>

theorem commands_fifo_single_flight:
  "\<exists>retired.
     enqueued es = retired @ in_flight (fst (handler_run es CommandHandler))
                     @ commandQueue (fst (handler_run es CommandHandler)) \<and>
     dispatched (snd (handler_run es CommandHandler))
       = map cmd (retired @ in_flight (fst (handler_run es CommandHandler))) \<and>
     fired (snd (handler_run es CommandHandler)) = map cb retired \<and>
     length (in_flight (fst (handler_run es CommandHandler))) \<le> 1"
proof -
  have "hook_idle CommandHandler" by (simp add: hook_idle_def CommandHandler_def)
  then have "advances CommandHandler (enqueued es) (handler_run es CommandHandler)"
    by (rule handler_run_advances)
  then obtain X Y where a: "fired (snd (handler_run es CommandHandler)) = map cb X"
      "dispatched (snd (handler_run es CommandHandler)) = map cmd Y"
      "in_flight CommandHandler @ Y = X @ in_flight (fst (handler_run es CommandHandler))"
      "commandQueue CommandHandler @ enqueued es = Y @ commandQueue (fst (handler_run es CommandHandler))"
    by (auto simp: advances_def)
  have "length (in_flight h) \<le> 1" for h by (simp add: in_flight_def split: option.splits)
  with a show ?thesis
    by (intro exI [of _ X]) (simp add: in_flight_def CommandHandler_def)
qed

text \<open>
  C6. When a command is in flight and the peer's message has no \<^verbatim>\<open>result\<close>, the
  callback of that command is called with \<^verbatim>\<open>false\<close>, the command is retired, and the
  queue moves on: the next pending command is written to the connection and becomes the
  one in flight, or, when none is pending, the dispatch hook is armed for the next one.
\<close>

theorem missing_result_fires_false:
  assumes "curCommand h = Some k"
  shows "handleCommand None c h =
           (case commandQueue h of
              [] \<Rightarrow> (h\<lparr>curCommand := None, onReceiveCommand := Some c\<rparr>,
                     [CmdCallback (cb k) (JBool False)])
            | n # q \<Rightarrow> (h\<lparr>curCommand := Some n, commandQueue := q, onReceiveCommand := None\<rparr>,
                        [CmdCallback (cb k) (JBool False), SocketWrite c (cmd n)]))"
  using assms
  by (cases "commandQueue h")
     (simp_all add: handleCommand_def waitForCommand_def send_next_def)

theorem missing_result_fires_false_witness:
  "curCommand \<lparr>curCommand = Some \<lparr>cmd = ''a'', cb = 1\<rparr>,
       commandQueue = [\<lparr>cmd = ''b'', cb = 2\<rparr>], onReceiveCommand = None\<rparr>
     = Some \<lparr>cmd = ''a'', cb = 1\<rparr> \<and>
   handleCommand None 7 \<lparr>curCommand = Some \<lparr>cmd = ''a'', cb = 1\<rparr>,
       commandQueue = [\<lparr>cmd = ''b'', cb = 2\<rparr>], onReceiveCommand = None\<rparr>
     = (\<lparr>curCommand = Some \<lparr>cmd = ''b'', cb = 2\<rparr>, commandQueue = [], onReceiveCommand = None\<rparr>,
        [CmdCallback 1 (JBool False), SocketWrite 7 ''b''])"
  using missing_result_fires_false
    [of "\<lparr>curCommand = Some \<lparr>cmd = ''a'', cb = 1\<rparr>,
           commandQueue = [\<lparr>cmd = ''b'', cb = 2\<rparr>], onReceiveCommand = None\<rparr>"
        "\<lparr>cmd = ''a'', cb = 1\<rparr>" 7]
  by simp

text \<open>
  C8. A result that arrives while no command is in flight fires no callback and is
  dropped. The queue does not stay as it was when a command is pending: the first
  pending command is written to the connection and becomes the one in flight. When none
  is pending, the in-flight slot and the pending entries are unchanged and only the
  dispatch hook is armed.
\<close>

theorem unexpected_result_dropped:
  assumes "curCommand h = None"
  shows "fired (snd (handleCommand (Some r) c h)) = [] \<and>
         handleCommand (Some r) c h =
           (case commandQueue h of
              [] \<Rightarrow> (h\<lparr>onReceiveCommand := Some c\<rparr>, [])
            | n # q \<Rightarrow> (h\<lparr>curCommand := Some n, commandQueue := q, onReceiveCommand := None\<rparr>,
                        [SocketWrite c (cmd n)]))"
  using assms
  by (cases "commandQueue h")
     (simp_all add: handleCommand_def waitForCommand_def send_next_def)

theorem unexpected_result_dropped_witness:
  "curCommand CommandHandler = None \<and>
   fired (snd (handleCommand (Some (JNum 1)) 3 CommandHandler)) = [] \<and>
   handleCommand (Some (JNum 1)) 3 CommandHandler
     = (CommandHandler\<lparr>onReceiveCommand := Some 3\<rparr>, [])"
  using unexpected_result_dropped [of CommandHandler "JNum 1" 3]
  by (simp add: CommandHandler_def)

text \<open>
  With one command pending and none in flight, a result from the peer leaves neither the
  in-flight slot nor the pending entries as they were.
\<close>

theorem unexpected_result_changes_queue:
  "\<not> (curCommand (fst (handleCommand (Some (JNum 1)) 0
          \<lparr>curCommand = None, commandQueue = [\<lparr>cmd = ''a'', cb = 1\<rparr>], onReceiveCommand = None\<rparr>))
        = None \<and>
      commandQueue (fst (handleCommand (Some (JNum 1)) 0
          \<lparr>curCommand = None, commandQueue = [\<lparr>cmd = ''a'', cb = 1\<rparr>], onReceiveCommand = None\<rparr>))
        = [\<lparr>cmd = ''a'', cb = 1\<rparr>])"
  by (simp add: handleCommand_def waitForCommand_def send_next_def)

section \<open>Properties of the session\<close>

lemma launch_callbacks_append:
  "launch_callbacks (fx @ gx) = launch_callbacks fx @ launch_callbacks gx"
  by (induction fx rule: launch_callbacks.induct) simp_all

lemma keeps_call_back:
  assumes "\<not> launchHandlerCalledBack s" "err = None \<longrightarrow> didLaunch s"
  shows "keeps s (call_back err s)"
  using assms
  by (auto simp: keeps_def call_back_def Let_def split: option.splits)

lemma keeps_spawn_and_wait: "keeps s (spawn_and_wait s)"
  by (simp add: keeps_def spawn_and_wait_def setTimeout_def Let_def)

lemma clearTimeout_fields [simp]:
  "flakeyRetries (clearTimeout t s) = flakeyRetries s"
  "launchHandlerCb (clearTimeout t s) = launchHandlerCb s"
  "launchTries (clearTimeout t s) = launchTries s"
  "launchHandlerCalledBack (clearTimeout t s) = launchHandlerCalledBack s"
  "didLaunch (clearTimeout t s) = didLaunch s"
  by (simp_all add: clearTimeout_def split: option.splits)

lemma keeps_trans_state:
  assumes "keeps s' R" "flakeyRetries s' = flakeyRetries s" "launchHandlerCb s' = launchHandlerCb s"
    "launchTries s' = launchTries s" "launchHandlerCalledBack s' = launchHandlerCalledBack s"
    "didLaunch s \<longrightarrow> didLaunch s'"
  shows "keeps s R"
  using assms by (simp add: keeps_def)

lemma keeps_launchHandler: "keeps s (launchHandler err s)"
proof (cases "launchHandlerCalledBack s")
  case True
  then show ?thesis by (simp add: keeps_def launchHandler_def)
next
  case False
  let ?s1 = "clearTimeout (socketConnectTimeout s) s"
  show ?thesis
  proof (cases err)
    case None
    have "keeps (?s1\<lparr>didLaunch := True, neverConnected := False\<rparr>)
            (call_back None (?s1\<lparr>didLaunch := True, neverConnected := False\<rparr>))"
      using False by (intro keeps_call_back) simp_all
    then have "keeps s (call_back None (?s1\<lparr>didLaunch := True, neverConnected := False\<rparr>))"
      by (rule keeps_trans_state) simp_all
    with False None show ?thesis by (simp add: launchHandler_def)
  next
    case (Some m)
    show ?thesis
    proof (cases "launchTries ?s1 < flakeyRetries ?s1 \<and>
                 (m = ERR_NEVER_CHECKED_IN \<or> m = ERR_CRASHED_ON_STARTUP)")
      case retry: True
      then have "keeps s (?s1\<lparr>launchTries := launchTries ?s1 + 1\<rparr>, [Uncaught])"
        by (simp add: keeps_def)
      with False Some retry show ?thesis by (simp add: launchHandler_def)
    next
      case final: False
      have "keeps ?s1 (call_back (Some m) ?s1)"
        using False by (intro keeps_call_back) simp_all
      then have "keeps s (call_back (Some m) ?s1)"
        by (rule keeps_trans_state) simp_all
      with False Some final show ?thesis by (auto simp: launchHandler_def)
    qed
  qed
qed

lemma keeps_launch: "keeps s (launch tmp s)"
  by (cases tmp) (simp_all add: launch_def keeps_launchHandler keeps_spawn_and_wait)

lemma keeps_pre: "agrees s s0 \<Longrightarrow> keeps s0 R \<Longrightarrow> keeps s R"
  by (simp add: keeps_def agrees_def)

lemma keeps_post:
  "keeps s R \<Longrightarrow> agrees (fst R) s2 \<Longrightarrow> launch_callbacks fx = launch_callbacks (snd R)
     \<Longrightarrow> keeps s (s2, fx)"
  by (simp add: keeps_def agrees_def)

lemma keeps_id: "agrees s s2 \<Longrightarrow> launch_callbacks fx = [] \<Longrightarrow> keeps s (s2, fx)"
  by (simp add: keeps_def agrees_def)

lemma agrees_clearTimeout: "agrees s (clearTimeout t s)"
  by (simp add: agrees_def)

lemma agrees_refl: "agrees s s"
  by (simp add: agrees_def)

lemma agrees_trans: "agrees s s1 \<Longrightarrow> agrees s1 s2 \<Longrightarrow> agrees s s2"
  by (simp add: agrees_def)

lemma keeps_launchHandler_at: "agrees s s0 \<Longrightarrow> keeps s (launchHandler err s0)"
  using keeps_launchHandler keeps_pre by blast

lemma keeps_launch_at: "agrees s s0 \<Longrightarrow> keeps s (launch tmp s0)"
  using keeps_launch keeps_pre by blast

lemma keeps_sendCommand: "keeps s (step P (SendCommand cm f) s)"
proof (cases "commandHandler s")
  case None
  then show ?thesis by (simp add: instruments_sendCommand_def keeps_id agrees_refl)
next
  case (Some r)
  obtain h fx where q: "sendCommand cm f (handler_obj s) = (h, fx)"
    by (cases "sendCommand cm f (handler_obj s)")
  have "launch_callbacks fx = []"
    using q by (auto simp: sendCommand_def send_next_def Let_def split: option.splits list.splits)
  with Some q show ?thesis
    by (simp add: instruments_sendCommand_def keeps_id agrees_def)
qed

lemma keeps_shutdown: "keeps s (shutdown f s)"
  by (cases "proc s")
     (simp_all add: shutdown_def termProc_def setTimeout_def keeps_id agrees_def)

lemma keeps_initSocketServer: "agrees s s0 \<Longrightarrow> keeps s (initSocketServer unlinked s0)"
  by (auto simp: initSocketServer_def Let_def agrees_def
           intro!: keeps_launchHandler_at keeps_id split: option.splits)

lemma keeps_on_instruments_path:
  "agrees s s0 \<Longrightarrow> keeps s (on_instruments_path found unlinked s0)"
  by (auto simp: on_instruments_path_def agrees_def
           intro!: keeps_launchHandler_at keeps_initSocketServer split: option.splits)

lemma keeps_on_listening: "agrees s s0 \<Longrightarrow> keeps s (on_listening err tmp s0)"
  by (auto simp: on_listening_def agrees_def
           intro!: keeps_launchHandler_at keeps_launch_at split: option.splits)

lemma keeps_on_proc_error: "keeps s (on_proc_error msg s)"
  by (auto simp: on_proc_error_def Let_def agrees_def
           intro!: keeps_launchHandler_at keeps_id)

lemma cleanupInstruments_Inl: "cleanupInstruments s = Inl s3 \<Longrightarrow> agrees s s3"
  by (auto simp: cleanupInstruments_def Let_def agrees_def split: option.splits)

lemma cleanupInstruments_Inr:
  "cleanupInstruments s = Inr (s3, fx) \<Longrightarrow> agrees s s3 \<and> launch_callbacks fx = []"
  by (auto simp: cleanupInstruments_def Let_def agrees_def split: option.splits)

lemma onInstrumentsExit_unfold: "(if termTimer s0 \<noteq> None then clearTimeout (termTimer s0) s0 else s0) = s1 \<Longrightarrow>
  (if killTimer s1 \<noteq> None then clearTimeout (killTimer s1) s1 else s1) = s2 \<Longrightarrow> onInstrumentsExit code s0 =
     (if neverConnected s2 then
           launchHandler (Some ERR_NEVER_CHECKED_IN) (s2\<lparr>neverConnected := False\<rparr>)
         else if \<not> didLaunch s2 \<and> \<not> ignoreStartupExit s2 then
           launchHandler (Some ERR_CRASHED_ON_STARTUP) s2
         else
           (case cleanupInstruments s2 of
              Inl s3 \<Rightarrow> (s3, [Uncaught])
            | Inr (s3, fx) \<Rightarrow>
                if ignoreStartupExit s3 then
                  (case launchHandler None s3 of (s4, fx4) \<Rightarrow> (s4, fx @ fx4))
                else
                  (case shutdownCb s3 of
                     Some f \<Rightarrow> (s3\<lparr>shutdownCb := None\<rparr>, fx @ [ShutdownCb f])
                   | None \<Rightarrow>
                       (case exitHandler s3 of
                          DefaultExitHandler \<Rightarrow> (s3, fx)
                        | ExitHandler None \<Rightarrow> (s3, fx @ [Uncaught])
                        | ExitHandler (Some f) \<Rightarrow> (s3, fx @ [ExitCb f code (traceDir s3)])))))"
  unfolding onInstrumentsExit_def Let_def by (erule subst, erule subst, rule refl)

lemma keeps_exit_callbacks:
  assumes "agrees s s3" "launch_callbacks fx = []"
  shows "keeps s (case shutdownCb s3 of
                     Some f \<Rightarrow> (s3\<lparr>shutdownCb := None\<rparr>, fx @ [ShutdownCb f])
                   | None \<Rightarrow>
                       (case exitHandler s3 of
                          DefaultExitHandler \<Rightarrow> (s3, fx)
                        | ExitHandler None \<Rightarrow> (s3, fx @ [Uncaught])
                        | ExitHandler (Some f) \<Rightarrow> (s3, fx @ [ExitCb f code (traceDir s3)])))"
proof (cases "shutdownCb s3")
  case (Some f)
  have "keeps s (s3\<lparr>shutdownCb := None\<rparr>, fx @ [ShutdownCb f])"
    using assms by (simp add: keeps_id agrees_def launch_callbacks_append)
  with Some show ?thesis by simp
next
  case None
  show ?thesis
  proof (cases "exitHandler s3")
    case DefaultExitHandler
    have "keeps s (s3, fx)" using assms by (rule keeps_id)
    with None DefaultExitHandler show ?thesis by simp
  next
    case (ExitHandler x)
    have "keeps s (s3, fx @ [Uncaught])" "keeps s (s3, fx @ [ExitCb f code (traceDir s3)])" for f
      using assms by (simp_all add: keeps_id launch_callbacks_append)
    with None ExitHandler show ?thesis by (cases x) simp_all
  qed
qed

lemma keeps_onInstrumentsExit:
  assumes "agrees s s0"
  shows "keeps s (onInstrumentsExit code s0)"
proof -
  define s1 where "s1 = (if termTimer s0 \<noteq> None then clearTimeout (termTimer s0) s0 else s0)"
  define s2 where "s2 = (if killTimer s1 \<noteq> None then clearTimeout (killTimer s1) s1 else s1)"
  have s2: "agrees s s2"
    using assms by (simp add: s1_def s2_def agrees_def)
  note eq = onInstrumentsExit_unfold [OF s1_def [symmetric] s2_def [symmetric], of code]
  show ?thesis
  proof (cases "neverConnected s2")
    case True
    have "agrees s (s2\<lparr>neverConnected := False\<rparr>)" using s2 by (simp add: agrees_def)
    then have "keeps s (launchHandler (Some ERR_NEVER_CHECKED_IN) (s2\<lparr>neverConnected := False\<rparr>))"
      by (rule keeps_launchHandler_at)
    then show ?thesis unfolding eq by (simp add: True)
  next
    case nc: False
    show ?thesis
    proof (cases "\<not> didLaunch s2 \<and> \<not> ignoreStartupExit s2")
      case True
      have "keeps s (launchHandler (Some ERR_CRASHED_ON_STARTUP) s2)"
        using s2 by (rule keeps_launchHandler_at)
      then show ?thesis unfolding eq by (simp add: nc True)
    next
      case False
      show ?thesis
      proof (cases "cleanupInstruments s2")
        case (Inl s3)
        from s2 cleanupInstruments_Inl [OF Inl] have "agrees s s3" by (rule agrees_trans)
        then have "keeps s (s3, [Uncaught])" by (simp add: keeps_id)
        then show ?thesis unfolding eq by (simp add: nc False Inl)
      next
        case (Inr r)
        obtain s3 fx where r: "r = (s3, fx)" by (cases r)
        from Inr r have i: "cleanupInstruments s2 = Inr (s3, fx)" by simp
        from cleanupInstruments_Inr [OF i]
        have c: "agrees s2 s3" "launch_callbacks fx = []" by simp_all
        from s2 c(1) have s3: "agrees s s3" by (rule agrees_trans)
        show ?thesis
        proof (cases "ignoreStartupExit s3")
          case True
          obtain s4 fx4 where l: "launchHandler None s3 = (s4, fx4)"
            by (cases "launchHandler None s3")
          have "keeps s (launchHandler None s3)" using s3 by (rule keeps_launchHandler_at)
          then have k: "keeps s (s4, fx4)" using l by simp
          have "keeps s (s4, fx @ fx4)"
            by (rule keeps_post [OF k]) (simp_all add: agrees_refl launch_callbacks_append c(2))
          moreover have "onInstrumentsExit code s0 = (s4, fx @ fx4)"
            unfolding eq by (simp add: nc False i True l)
          ultimately show ?thesis by simp
        next
          case ig: False
          have "keeps s (case shutdownCb s3 of
                     Some f \<Rightarrow> (s3\<lparr>shutdownCb := None\<rparr>, fx @ [ShutdownCb f])
                   | None \<Rightarrow>
                       (case exitHandler s3 of
                          DefaultExitHandler \<Rightarrow> (s3, fx)
                        | ExitHandler None \<Rightarrow> (s3, fx @ [Uncaught])
                        | ExitHandler (Some f) \<Rightarrow> (s3, fx @ [ExitCb f code (traceDir s3)])))"
            using s3 c(2) by (rule keeps_exit_callbacks)
          moreover have "onInstrumentsExit code s0 = (case shutdownCb s3 of
                     Some f \<Rightarrow> (s3\<lparr>shutdownCb := None\<rparr>, fx @ [ShutdownCb f])
                   | None \<Rightarrow>
                       (case exitHandler s3 of
                          DefaultExitHandler \<Rightarrow> (s3, fx)
                        | ExitHandler None \<Rightarrow> (s3, fx @ [Uncaught])
                        | ExitHandler (Some f) \<Rightarrow> (s3, fx @ [ExitCb f code (traceDir s3)])))"
            unfolding eq by (simp add: nc False i ig)
          ultimately show ?thesis by simp
        qed
      qed
    qed
  qed
qed

lemma keeps_on_proc_exit: "keeps s (on_proc_exit code s)"
  by (auto simp: on_proc_exit_def agrees_def intro!: keeps_onInstrumentsExit keeps_id)

lemma keeps_on_timeout: "keeps s (on_timeout i s)"
  by (auto simp: on_timeout_def onSocketNeverConnect_def Let_def agrees_def
           intro!: keeps_id split: option.splits timer.splits)

lemma keeps_onSocketConnect: "keeps s (onSocketConnect c s)"
proof (cases "hasConnected s")
  case True
  then show ?thesis by (simp add: onSocketConnect_def keeps_id agrees_def)
next
  case False
  obtain s1 fx where l: "launchHandler None (s\<lparr>hasConnected := True\<rparr>) = (s1, fx)"
    by (cases "launchHandler None (s\<lparr>hasConnected := True\<rparr>)")
  have "keeps s (launchHandler None (s\<lparr>hasConnected := True\<rparr>))"
    by (rule keeps_launchHandler_at) (simp add: agrees_def)
  then have k: "keeps s (s1, fx)" using l by simp
  have "keeps s (s1\<lparr>currentSocket := Some c, conns := c # conns s1\<rparr>, fx)"
    by (rule keeps_post [OF k]) (simp_all add: agrees_def)
  with False l show ?thesis by (simp add: onSocketConnect_def)
qed

lemma launch_callbacks_handleCommand: "launch_callbacks (snd (handleCommand r c h)) = []"
  by (auto simp: handleCommand_def waitForCommand_def send_next_def Let_def
                 launch_callbacks_append
           split: option.splits list.splits prod.splits if_splits)

lemma keeps_on_end: "keeps s (on_end P c s)"
proof -
  have "keeps s (case handleCommand r c h of (h', fx) \<Rightarrow> (s\<lparr>bufferedData := [], handler_obj := h'\<rparr>, fx))"
    for r h
    using launch_callbacks_handleCommand [of r c h]
    by (cases "handleCommand r c h") (simp add: keeps_id agrees_def)
  then show ?thesis
    by (auto simp: on_end_def Let_def agrees_def intro!: keeps_id split: option.splits)
qed

lemma keeps_step: "\<not> is_start e \<Longrightarrow> keeps s (step P e s)"
proof (cases e)
  case (Start l x)
  assume "\<not> is_start e"
  with Start show ?thesis by simp
next
  case (SendCommand cm f)
  then show ?thesis using keeps_sendCommand by blast
next
  case (Shutdown f)
  then show ?thesis by (simp add: keeps_shutdown)
next
  case (FoundInstruments found unlinked)
  then show ?thesis by (simp add: agrees_def keeps_on_instruments_path keeps_id)
next
  case (Listening err tmp)
  then show ?thesis by (simp add: agrees_def keeps_on_listening keeps_id)
next
  case (ProcError msg)
  then show ?thesis by (simp add: agrees_def keeps_on_proc_error keeps_id)
next
  case (ProcExit code)
  then show ?thesis by (simp add: agrees_def keeps_on_proc_exit keeps_id)
next
  case (Stdout chunk)
  then show ?thesis
    by (simp add: outputStreamHandler_def agrees_def keeps_id split: option.splits)
next
  case (Timeout i)
  then show ?thesis by (simp add: keeps_on_timeout)
next
  case (Connect c)
  then show ?thesis by (simp add: agrees_def keeps_onSocketConnect keeps_id)
next
  case (Data c d)
  then show ?thesis by (simp add: agrees_def keeps_id)
next
  case (End c)
  then show ?thesis by (simp add: agrees_def keeps_on_end keeps_id)
next
  case (Close c)
  then show ?thesis by (simp add: agrees_def keeps_id)
qed

lemma keeps_trans:
  assumes "keeps s (s1, fx1)" "keeps s1 (s2, fx2)"
  shows "keeps s (s2, fx1 @ fx2)"
proof -
  from assms have f: "flakeyRetries s1 = flakeyRetries s" "flakeyRetries s2 = flakeyRetries s1"
    and c: "launchHandlerCb s1 = launchHandlerCb s" "launchHandlerCb s2 = launchHandlerCb s1"
    and t1: "launchTries s \<le> flakeyRetries s \<longrightarrow> launchTries s1 \<le> flakeyRetries s"
    and t2: "launchTries s1 \<le> flakeyRetries s1 \<longrightarrow> launchTries s2 \<le> flakeyRetries s1"
    and m: "launchHandlerCalledBack s \<longrightarrow> launchHandlerCalledBack s1"
       "launchHandlerCalledBack s1 \<longrightarrow> launchHandlerCalledBack s2"
    and n1: "length (launch_callbacks fx1) \<le>
           (if launchHandlerCalledBack s1 \<and> \<not> launchHandlerCalledBack s then 1 else 0)"
    and n2: "length (launch_callbacks fx2) \<le>
           (if launchHandlerCalledBack s2 \<and> \<not> launchHandlerCalledBack s1 then 1 else 0)"
    and w1: "\<forall>x \<in> set (launch_callbacks fx1). launchHandlerCb s = Some (fst x)"
    and w2: "\<forall>x \<in> set (launch_callbacks fx2). launchHandlerCb s1 = Some (fst x)"
    and d: "didLaunch s \<longrightarrow> didLaunch s1" "didLaunch s1 \<longrightarrow> didLaunch s2"
    and o1: "\<forall>x \<in> set (launch_callbacks fx1). snd x = None \<longrightarrow> didLaunch s1"
    and o2: "\<forall>x \<in> set (launch_callbacks fx2). snd x = None \<longrightarrow> didLaunch s2"
    by (simp_all add: keeps_def)
  have o: "\<forall>x \<in> set (launch_callbacks (fx1 @ fx2)). snd x = None \<longrightarrow> didLaunch s2"
    using o1 o2 d by (auto simp: launch_callbacks_append)
  have "length (launch_callbacks (fx1 @ fx2)) \<le>
           (if launchHandlerCalledBack s2 \<and> \<not> launchHandlerCalledBack s then 1 else 0)"
    using n1 n2 m by (cases "launchHandlerCalledBack s"; cases "launchHandlerCalledBack s1";
                        cases "launchHandlerCalledBack s2") (simp_all add: launch_callbacks_append)
  moreover have "\<forall>x \<in> set (launch_callbacks (fx1 @ fx2)). launchHandlerCb s = Some (fst x)"
    using w1 w2 c by (simp add: launch_callbacks_append ball_Un)
  moreover have "launchTries s \<le> flakeyRetries s \<longrightarrow> launchTries s2 \<le> flakeyRetries s"
    using t1 t2 f by simp
  ultimately show ?thesis using f c m d o by (simp add: keeps_def)
qed

lemma keeps_run: "list_all (\<lambda>e. \<not> is_start e) es \<Longrightarrow> keeps s (run P es s)"
proof (induction es arbitrary: s)
  case Nil
  show ?case by (simp add: keeps_id agrees_refl)
next
  case (Cons e es)
  obtain s1 fx1 where a: "step P e s = (s1, fx1)" by (cases "step P e s")
  obtain s2 fx2 where b: "run P es s1 = (s2, fx2)" by (cases "run P es s1")
  from Cons.prems have "keeps s (step P e s)" by (simp add: keeps_step)
  with a have k1: "keeps s (s1, fx1)" by simp
  from Cons.prems Cons.IH [of s1] b have k2: "keeps s1 (s2, fx2)" by simp
  from keeps_trans [OF k1 k2] a b show ?case by simp
qed

lemma within_budget_step: "within_budget s (step P e s)"
proof (cases "is_start e")
  case True
  then obtain f x where "e = Start f x" by (cases e) simp_all
  then show ?thesis by (simp add: within_budget_def start_def)
next
  case False
  then have "keeps s (step P e s)" by (rule keeps_step)
  then show ?thesis by (simp add: keeps_def within_budget_def)
qed

lemma within_budget_run: "within_budget s (run P es s)"
proof (induction es arbitrary: s)
  case Nil
  show ?case by (simp add: within_budget_def)
next
  case (Cons e es)
  obtain s1 fx1 where a: "step P e s = (s1, fx1)" by (cases "step P e s")
  obtain s2 fx2 where b: "run P es s1 = (s2, fx2)" by (cases "run P es s1")
  from within_budget_step [of s P e] a have "within_budget s (s1, fx1)" by simp
  moreover from Cons.IH [of s1] b have "within_budget s1 (s2, fx2)" by simp
  ultimately have "within_budget s (s2, fx1 @ fx2)" by (simp add: within_budget_def)
  with a b show ?case by simp
qed

lemma retries_never_exceed_budget:
  "launchTries (fst (run P es (Instruments n ign))) \<le> n"
  using within_budget_run [of "Instruments n ign" P es]
  by (simp add: within_budget_def Instruments_def)

lemma call_back_launchTries: "launchTries (fst (call_back err s)) = launchTries s"
  by (simp add: call_back_def Let_def split: option.splits)

lemma retry_only_when:
  assumes "launchTries (fst (launchHandler err s)) \<noteq> launchTries s"
  shows "\<not> launchHandlerCalledBack s \<and> launchTries s < flakeyRetries s \<and>
         (err = Some ERR_NEVER_CHECKED_IN \<or> err = Some ERR_CRASHED_ON_STARTUP)"
proof (rule ccontr)
  assume n: "\<not> ?thesis"
  have "launchTries (fst (launchHandler err s)) = launchTries s"
  proof (cases "launchHandlerCalledBack s")
    case True
    then show ?thesis by (simp add: launchHandler_def)
  next
    case False
    with n show ?thesis
      by (cases err) (auto simp: launchHandler_def call_back_launchTries Let_def)
  qed
  with assms show False by simp
qed

lemma spawn_error_not_retryable:
  "spawn_error msg \<noteq> ERR_NEVER_CHECKED_IN"
  "spawn_error msg \<noteq> ERR_CRASHED_ON_STARTUP"
  by (simp_all add: spawn_error_def ERR_NEVER_CHECKED_IN_def ERR_CRASHED_ON_STARTUP_def)

lemma launchHandler_spawn_error:
  "launchHandler (Some (spawn_error msg)) s =
     (if launchHandlerCalledBack s then (s, [])
      else call_back (Some (spawn_error msg)) (clearTimeout (socketConnectTimeout s) s))"
  by (simp add: launchHandler_def spawn_error_not_retryable Let_def)

lemma spawns_append: "spawns (fx @ gx) = spawns fx @ spawns gx"
  by (induction fx rule: spawns.induct) simp_all

lemma spawn_failure_not_retried:
  "launchTries (fst (on_proc_error msg s)) = launchTries s \<and> spawns (snd (on_proc_error msg s)) = []"
  by (simp add: on_proc_error_def Let_def launchHandler_spawn_error call_back_def)

lemma called_back_stays_silent:
  assumes "launchHandlerCalledBack s"
  shows "launch_callbacks (snd (run P (filter (\<lambda>e. \<not> is_start e) es) s)) = []"
proof -
  have "list_all (\<lambda>e. \<not> is_start e) (filter (\<lambda>e. \<not> is_start e) es)"
    by (simp add: list_all_iff)
  from keeps_run [OF this, of s P]
  have "length (launch_callbacks (snd (run P (filter (\<lambda>e. \<not> is_start e) es) s))) \<le>
          (if launchHandlerCalledBack (fst (run P (filter (\<lambda>e. \<not> is_start e) es) s)) \<and>
              \<not> launchHandlerCalledBack s then 1 else 0)"
    by (simp add: keeps_def)
  with assms show ?thesis by simp
qed

lemma awaiting_check_in_eq:
  "awaiting_check_in =
     (Instruments 1 False)\<lparr>launchHandlerCb := Some 1, exitHandler := ExitHandler None,
        instrumentsPath := ''/usr/bin/instruments'', socketServer := ServerListening,
        proc := Some 0, spawned := 1, timers := [(0, ConnectTimer)], nextTimer := 1,
        socketConnectTimeout := Some 0\<rparr>"
  by (simp add: awaiting_check_in_def Instruments_def start_def on_instruments_path_def
        initSocketServer_def on_listening_def launch_def spawn_and_wait_def setTimeout_def
        Let_def)

lemma spawn_error_at_awaiting_check_in:
  "on_proc_error ''spawn ENOENT'' awaiting_check_in =
     (awaiting_check_in\<lparr>proc := None, instrumentsExited := True, timers := [],
        launchHandlerCalledBack := True\<rparr>,
      [Uncaught])"
  by (simp add: on_proc_error_def launchHandler_spawn_error call_back_def Let_def
        awaiting_check_in_eq Instruments_def clearTimeout_def)

text \<open>
  C5. The missing executable: the first child process of a session has been spawned and
  has not checked in, and its \<^verbatim>\<open>error\<close> event arrives with \<^verbatim>\<open>spawn ENOENT\<close>. The
  retry count is not changed and nothing is spawned, but the failure is not surfaced:
  \<^verbatim>\<open>launchHandler\<close> marks the launch callback as called and then throws at
  \<^verbatim>\<open>this.killProc()\<close>, so the launch callback is not called, neither then nor in
  anything that happens to the session afterwards short of another \<^verbatim>\<open>start\<close>.
\<close>

theorem spawn_failure_not_surfaced:
  "snd (on_proc_error ''spawn ENOENT'' awaiting_check_in) = [Uncaught] \<and>
   launchHandlerCalledBack (fst (on_proc_error ''spawn ENOENT'' awaiting_check_in)) \<and>
   launchTries (fst (on_proc_error ''spawn ENOENT'' awaiting_check_in)) = 0 \<and>
   launch_callbacks
     (snd (run P (filter (\<lambda>e. \<not> is_start e) es)
             (fst (on_proc_error ''spawn ENOENT'' awaiting_check_in)))) = []"
proof -
  have "launchHandlerCalledBack (fst (on_proc_error ''spawn ENOENT'' awaiting_check_in))"
    by (simp add: spawn_error_at_awaiting_check_in)
  from called_back_stays_silent [OF this, of P es]
  have "launch_callbacks
     (snd (run P (filter (\<lambda>e. \<not> is_start e) es)
             (fst (on_proc_error ''spawn ENOENT'' awaiting_check_in)))) = []" .
  moreover have "launchTries awaiting_check_in = 0"
    by (simp add: awaiting_check_in_eq Instruments_def)
  ultimately show ?thesis by (simp add: spawn_error_at_awaiting_check_in)
qed

text \<open>
  What does hold of the retries: in every run of a session the retry count stays within
  the budget; a call of \<^verbatim>\<open>launchHandler\<close> changes the retry count only if the launch
  callback has not been called, the count is below the budget and the error is the
  never-checked-in or the startup-crash error; and the handler of a spawn error never
  changes the retry count and never spawns a process.
\<close>

lemma retries_within_budget:
  "launchTries (fst (run P es (Instruments n ign))) \<le> n \<and>
   (launchTries (fst (launchHandler err s)) \<noteq> launchTries s \<longrightarrow>
      \<not> launchHandlerCalledBack s \<and> launchTries s < flakeyRetries s \<and>
      (err = Some ERR_NEVER_CHECKED_IN \<or> err = Some ERR_CRASHED_ON_STARTUP)) \<and>
   launchTries (fst (on_proc_error msg s')) = launchTries s' \<and>
   spawns (snd (on_proc_error msg s')) = []"
  using retries_never_exceed_budget [of P es n ign] retry_only_when [of err s]
    spawn_failure_not_retried [of msg s']
  by blast

lemma run_append:
  "run P (xs @ ys) s =
     (case run P xs s of (s1, fx1) \<Rightarrow> (case run P ys s1 of (s2, fx2) \<Rightarrow> (s2, fx1 @ fx2)))"
  by (induction xs arbitrary: s) (simp_all split: prod.splits)

lemma startup_launching:
  "launching f (fst (run P (startup f x path) (Instruments n False))) \<and>
   launchTries (fst (run P (startup f x path) (Instruments n False))) = 0 \<and>
   flakeyRetries (fst (run P (startup f x path) (Instruments n False))) = n \<and>
   snd (run P (startup f x path) (Instruments n False)) = [FindInstruments, Listen, Spawn 0]"
  by (simp add: startup_def launching_def Instruments_def start_def on_instruments_path_def
        initSocketServer_def on_listening_def launch_def spawn_and_wait_def setTimeout_def
        Let_def)

lemma crash_loses_callback:
  assumes "launching f s"
  shows "snd (step P (ProcExit code) s) = [Uncaught] \<and>
         spawned (fst (step P (ProcExit code) s)) = spawned s \<and>
         launchHandlerCalledBack (fst (step P (ProcExit code) s)) = (flakeyRetries s \<le> launchTries s) \<and>
         launchTries (fst (step P (ProcExit code) s)) =
           (if launchTries s < flakeyRetries s then Suc (launchTries s) else launchTries s)"
proof -
  define s1 where "s1 = (if termTimer (s\<lparr>instrumentsExited := True\<rparr>) \<noteq> None
      then clearTimeout (termTimer (s\<lparr>instrumentsExited := True\<rparr>)) (s\<lparr>instrumentsExited := True\<rparr>)
      else s\<lparr>instrumentsExited := True\<rparr>)"
  define s2 where "s2 = (if killTimer s1 \<noteq> None then clearTimeout (killTimer s1) s1 else s1)"
  note eq = onInstrumentsExit_unfold [OF s1_def [symmetric] s2_def [symmetric], of code]
  have f: "\<not> launchHandlerCalledBack s2" "\<not> didLaunch s2" "\<not> ignoreStartupExit s2"
    "\<not> neverConnected s2" "spawned s2 = spawned s"
    "launchTries s2 = launchTries s" "flakeyRetries s2 = flakeyRetries s"
    using assms by (simp_all add: s1_def s2_def launching_def clearTimeout_def
        split: option.splits)
  have st: "step P (ProcExit code) s = launchHandler (Some ERR_CRASHED_ON_STARTUP) s2"
    using assms by (simp add: on_proc_exit_def eq f launching_def)
  have sp: "spawned (clearTimeout t s2) = spawned s2" for t
    by (simp add: clearTimeout_def split: option.splits)
  show ?thesis
    unfolding st using f
    by (auto simp: launchHandler_def call_back_def Let_def sp)
qed

lemma check_in_calls_back:
  assumes "launching f s"
  shows "launch_callbacks (snd (step P (Connect c) s)) = [(f, None)] \<and>
         launchTries (fst (step P (Connect c) s)) = launchTries s"
  using assms
  by (simp add: launching_def onSocketConnect_def launchHandler_def call_back_def Let_def
        clearTimeout_def split: option.splits)

lemma crash_run:
  "run P (startup f x path @ [ProcExit code]) (Instruments n False) =
     (fst (step P (ProcExit code) (fst (run P (startup f x path) (Instruments n False)))),
      [FindInstruments, Listen, Spawn 0, Uncaught])"
proof -
  obtain s0 fx0 where a: "run P (startup f x path) (Instruments n False) = (s0, fx0)"
    by (cases "run P (startup f x path) (Instruments n False)")
  from startup_launching [of f P x path n] a
  have 0: "launching f s0" "fx0 = [FindInstruments, Listen, Spawn 0]" by simp_all
  obtain s1 fx1 where b: "step P (ProcExit code) s0 = (s1, fx1)"
    by (cases "step P (ProcExit code) s0")
  from crash_loses_callback [OF 0(1), of P code] b have "fx1 = [Uncaught]" by simp
  with a b 0 show ?thesis by (simp add: run_append)
qed

text \<open>
  C2. A session with no retry budget is started once, and its child process exits
  before checking in. The exit handler calls \<^verbatim>\<open>launchHandler\<close> with the startup-crash
  error, which marks the launch callback as called and then throws at
  \<^verbatim>\<open>this.killProc()\<close>: the launch callback of that \<^verbatim>\<open>start\<close> is not called, then or
  in anything that happens afterwards short of another \<^verbatim>\<open>start\<close>. With a budget, the
  first crash increments the retry count and throws at the same call before
  \<^verbatim>\<open>launch\<close>: no second child process is spawned and no callback is called.
\<close>

theorem launch_callback_lost_on_startup_crash:
  "snd (run P (startup f x path @ [ProcExit code]) (Instruments 0 False))
     = [FindInstruments, Listen, Spawn 0, Uncaught] \<and>
   launchHandlerCalledBack (fst (run P (startup f x path @ [ProcExit code]) (Instruments 0 False))) \<and>
   launch_callbacks
     (snd (run P (filter (\<lambda>e. \<not> is_start e) es)
             (fst (run P (startup f x path @ [ProcExit code]) (Instruments 0 False))))) = [] \<and>
   snd (run P (startup f x path @ [ProcExit code]) (Instruments (Suc n) False))
     = [FindInstruments, Listen, Spawn 0, Uncaught] \<and>
   launchTries (fst (run P (startup f x path @ [ProcExit code]) (Instruments (Suc n) False))) = 1 \<and>
   spawned (fst (run P (startup f x path @ [ProcExit code]) (Instruments (Suc n) False))) = 1"
proof -
  let ?s = "\<lambda>n. fst (run P (startup f x path) (Instruments n False))"
  have l: "launching f (?s k)" "launchTries (?s k) = 0" "flakeyRetries (?s k) = k" for k
    using startup_launching [of f P x path k] by simp_all
  have sp: "spawned (?s k) = 1" for k
    by (simp add: startup_def Instruments_def start_def on_instruments_path_def
        initSocketServer_def on_listening_def launch_def spawn_and_wait_def setTimeout_def
        Let_def)
  have 0: "launchHandlerCalledBack (fst (step P (ProcExit code) (?s 0)))"
    using crash_loses_callback [OF l(1) [of 0], of P code] l(2,3) [of 0] by simp
  have 1: "launchTries (fst (step P (ProcExit code) (?s (Suc n)))) = 1"
    "spawned (fst (step P (ProcExit code) (?s (Suc n)))) = 1"
    using crash_loses_callback [OF l(1) [of "Suc n"], of P code] l(2,3) [of "Suc n"] sp [of "Suc n"]
    by simp_all
  from called_back_stays_silent [OF 0, of P es] 0 1 show ?thesis
    by (simp add: crash_run)
qed

text \<open>
  What does hold of the launch callback: in a run of a fresh session that begins with
  the one call of \<^verbatim>\<open>start\<close>, it is called at most once, and by no other callback; and
  when the first child process checks in, it is called once, with no error.
\<close>

lemma launch_callback_at_most_once:
  assumes "list_all (\<lambda>e. \<not> is_start e) es"
  shows "length (launch_callbacks (snd (run P (Start f x # es) (Instruments n ign)))) \<le> 1 \<and>
         (\<forall>c \<in> set (launch_callbacks (snd (run P (Start f x # es) (Instruments n ign)))).
            fst c = f)"
proof -
  define s0 where "s0 = (Instruments n ign)\<lparr>launchHandlerCb := Some f,
     exitHandler := ExitHandler x, lookups := 1\<rparr>"
  obtain s2 fx2 where r: "run P es s0 = (s2, fx2)" by (cases "run P es s0")
  have st: "step P (Start f x) (Instruments n ign) = (s0, [FindInstruments])"
    by (simp add: start_def Instruments_def s0_def)
  from keeps_run [OF assms, of s0 P] r have k: "keeps s0 (s2, fx2)" by simp
  have c: "launchHandlerCb s0 = Some f" by (simp add: s0_def)
  from k have "length (launch_callbacks fx2) \<le> 1"
    by (simp add: keeps_def split: if_splits)
  moreover from k c have "\<forall>c \<in> set (launch_callbacks fx2). fst c = f"
    by (simp add: keeps_def)
  moreover have "run P (Start f x # es) (Instruments n ign) = (s2, FindInstruments # fx2)"
    using st r by simp
  ultimately show ?thesis by simp
qed

lemma check_in_run_calls_back:
  "launch_callbacks (snd (run P (startup f x path @ [Connect c]) (Instruments n False)))
     = [(f, None)]"
proof -
  obtain s0 fx0 where a: "run P (startup f x path) (Instruments n False) = (s0, fx0)"
    by (cases "run P (startup f x path) (Instruments n False)")
  from startup_launching [of f P x path n] a
  have 0: "launching f s0" "fx0 = [FindInstruments, Listen, Spawn 0]" by simp_all
  obtain s1 fx1 where b: "step P (Connect c) s0 = (s1, fx1)" by (cases "step P (Connect c) s0")
  from check_in_calls_back [OF 0(1), of P c] b have "launch_callbacks fx1 = [(f, None)]" by simp
  with a b 0 show ?thesis by (simp add: run_append launch_callbacks_append)
qed

text \<open>
  A second call of \<^verbatim>\<open>start\<close> right after the first, before the child process has
  checked in, is not refused: it asks for the instruments binary again and replaces the
  launch callback of the first call.
\<close>

theorem second_start_not_refused:
  "snd (start 3 (Some 4) (fst (start 1 (Some 2) (Instruments 0 False)))) = [FindInstruments] \<and>
   launchHandlerCb (fst (start 3 (Some 4) (fst (start 1 (Some 2) (Instruments 0 False))))) = Some 3 \<and>
   launchHandlerCb (fst (start 1 (Some 2) (Instruments 0 False))) = Some 1"
  by (simp add: start_def Instruments_def)

lemma launched_step: "launched s (step P e s)"
proof (cases "is_start e")
  case True
  then obtain f x where "e = Start f x" by (cases e) simp_all
  then show ?thesis by (simp add: launched_def start_def)
next
  case False
  then have "keeps s (step P e s)" by (rule keeps_step)
  then show ?thesis by (simp add: keeps_def launched_def)
qed

lemma launched_run: "launched s (run P es s)"
proof (induction es arbitrary: s)
  case Nil
  show ?case by (simp add: launched_def)
next
  case (Cons e es)
  obtain s1 fx1 where a: "step P e s = (s1, fx1)" by (cases "step P e s")
  obtain s2 fx2 where b: "run P es s1 = (s2, fx2)" by (cases "run P es s1")
  from launched_step [of s P e] a have "launched s (s1, fx1)" by simp
  moreover from Cons.IH [of s1] b have "launched s1 (s2, fx2)" by simp
  ultimately have "launched s (s2, fx1 @ fx2)"
    by (auto simp: launched_def launch_callbacks_append)
  with a b show ?case by simp
qed

text \<open>
  C3. Once the launch callback of a session has been called without an error, that is,
  once the child process has checked in, a call of \<^verbatim>\<open>start\<close> calls its own launch
  callback with the already-launched error and changes nothing in the session. Before
  that a second call of \<^verbatim>\<open>start\<close> is not refused.
\<close>

theorem start_after_launch_refused:
  assumes "(f, None) \<in> set (launch_callbacks (snd (run P es (Instruments n ign))))"
  shows "start launchCb unexpectedExitCb (fst (run P es (Instruments n ign))) =
           (fst (run P es (Instruments n ign)), [LaunchCb launchCb (Some ERR_ALREADY_LAUNCHED)])"
proof -
  from launched_run [of "Instruments n ign" P es]
  have "\<forall>x \<in> set (launch_callbacks (snd (run P es (Instruments n ign)))).
          snd x = None \<longrightarrow> didLaunch (fst (run P es (Instruments n ign)))"
    by (simp add: launched_def)
  from bspec [OF this assms]
  have "didLaunch (fst (run P es (Instruments n ign)))" by simp
  then show ?thesis by (simp add: start_def)
qed

lemma check_in_run_callbacks:
  "launch_callbacks (snd (run no_parse check_in_run (Instruments 0 False))) = [(1, None)]"
  by (simp add: check_in_run_def Instruments_def start_def on_instruments_path_def
        initSocketServer_def on_listening_def spawn_and_wait_def setTimeout_def Let_def
        onSocketConnect_def launchHandler_def launch_def call_back_def clearTimeout_def)

theorem start_after_launch_refused_witness:
  "(1, None) \<in> set (launch_callbacks (snd (run no_parse check_in_run (Instruments 0 False)))) \<and>
   start 5 None (fst (run no_parse check_in_run (Instruments 0 False))) =
     (fst (run no_parse check_in_run (Instruments 0 False)),
      [LaunchCb 5 (Some ERR_ALREADY_LAUNCHED)])"
proof -
  have h: "(1, None) \<in> set (launch_callbacks (snd (run no_parse check_in_run (Instruments 0 False))))"
    by (simp add: check_in_run_callbacks)
  from start_after_launch_refused [OF h, of 5 None] h show ?thesis by simp
qed

text \<open>
  C7. When the bytes buffered at the end of a connection do not parse as JSON, the end
  handler does exactly what it does for a well-formed command-result message whose
  result is the fixed value \<^verbatim>\<open>UNKNOWN_ERROR\<close>, and empties the buffer: no exception
  leaves the handler; a command in flight has its callback called with
  \<^verbatim>\<open>UNKNOWN_ERROR\<close> and is retired; and the next pending command is written to the
  connection, or the dispatch hook is armed for the next one to come.
\<close>

theorem malformed_data_gives_unknown_error:
  assumes "P (bufferedData s) = None"
  shows "on_end P c s =
           (case handleCommand (Some UNKNOWN_ERROR) c (handler_obj s) of
              (h, fx) \<Rightarrow> (s\<lparr>bufferedData := [], handler_obj := h\<rparr>, fx)) \<and>
         (\<forall>k. curCommand (handler_obj s) = Some k \<longrightarrow>
            handleCommand (Some UNKNOWN_ERROR) c (handler_obj s) =
              (case commandQueue (handler_obj s) of
                 [] \<Rightarrow> ((handler_obj s)\<lparr>curCommand := None, onReceiveCommand := Some c\<rparr>,
                        [CmdCallback (cb k) UNKNOWN_ERROR])
               | n # q \<Rightarrow> ((handler_obj s)\<lparr>curCommand := Some n, commandQueue := q,
                              onReceiveCommand := None\<rparr>,
                           [CmdCallback (cb k) UNKNOWN_ERROR, SocketWrite c (cmd n)])))"
proof -
  have "on_end P c s =
           (case handleCommand (Some UNKNOWN_ERROR) c (handler_obj s) of
              (h, fx) \<Rightarrow> (s\<lparr>bufferedData := [], handler_obj := h\<rparr>, fx))"
    using assms by (simp add: on_end_def Let_def split: prod.splits)
  moreover have "handleCommand (Some UNKNOWN_ERROR) c (handler_obj s) =
              (case commandQueue (handler_obj s) of
                 [] \<Rightarrow> ((handler_obj s)\<lparr>curCommand := None, onReceiveCommand := Some c\<rparr>,
                        [CmdCallback (cb k) UNKNOWN_ERROR])
               | n # q \<Rightarrow> ((handler_obj s)\<lparr>curCommand := Some n, commandQueue := q,
                              onReceiveCommand := None\<rparr>,
                           [CmdCallback (cb k) UNKNOWN_ERROR, SocketWrite c (cmd n)]))"
    if "curCommand (handler_obj s) = Some k" for k
    using that
    by (cases "commandQueue (handler_obj s)")
       (simp_all add: handleCommand_def waitForCommand_def send_next_def)
  ultimately show ?thesis by blast
qed


lemmas session_defs =
  Instruments_def CommandHandler_def start_def on_instruments_path_def initSocketServer_def
  on_listening_def spawn_and_wait_def setTimeout_def Let_def onSocketConnect_def
  launchHandler_def launch_def call_back_def clearTimeout_def instruments_sendCommand_def
  sendCommand_def send_next_def on_end_def handleCommand_def waitForCommand_def
  on_proc_exit_def onInstrumentsExit_def cleanupInstruments_def clean_def
  shutdown_def termProc_def on_timeout_def onSocketNeverConnect_def peer_parse_def

lemma malformed_run_state:
  "bufferedData (fst (run peer_parse malformed_run (Instruments 0 False))) = ''{\"event\":\"cmd\",\"resu'' \<and>
   handler_obj (fst (run peer_parse malformed_run (Instruments 0 False))) =
     \<lparr>curCommand = Some \<lparr>cmd = ''a'', cb = 10\<rparr>, commandQueue = [\<lparr>cmd = ''b'', cb = 11\<rparr>],
      onReceiveCommand = None\<rparr>"
  by (simp add: malformed_run_def session_defs)

theorem malformed_data_gives_unknown_error_witness:
  "peer_parse (bufferedData (fst (run peer_parse malformed_run (Instruments 0 False)))) = None \<and>
   snd (on_end peer_parse 1 (fst (run peer_parse malformed_run (Instruments 0 False))))
     = [CmdCallback 10 UNKNOWN_ERROR, SocketWrite 1 ''b''] \<and>
   bufferedData (fst (on_end peer_parse 1 (fst (run peer_parse malformed_run (Instruments 0 False)))))
     = [] \<and>
   handler_obj (fst (on_end peer_parse 1 (fst (run peer_parse malformed_run (Instruments 0 False)))))
     = \<lparr>curCommand = Some \<lparr>cmd = ''b'', cb = 11\<rparr>, commandQueue = [], onReceiveCommand = None\<rparr>"
proof -
  let ?s = "fst (run peer_parse malformed_run (Instruments 0 False))"
  have h: "peer_parse (bufferedData ?s) = None"
    by (simp add: malformed_run_state peer_parse_def)
  have k: "curCommand (handler_obj ?s) = Some \<lparr>cmd = ''a'', cb = 10\<rparr>"
    by (simp add: malformed_run_state)
  from malformed_data_gives_unknown_error [of peer_parse ?s 1, OF h] k
  have "on_end peer_parse 1 ?s =
     (?s\<lparr>bufferedData := [],
          handler_obj := \<lparr>curCommand = Some \<lparr>cmd = ''b'', cb = 11\<rparr>, commandQueue = [],
                          onReceiveCommand = None\<rparr>\<rparr>,
      [CmdCallback 10 UNKNOWN_ERROR, SocketWrite 1 ''b''])"
    by (simp add: malformed_run_state)
  with h show ?thesis by simp
qed

text \<open>
  What \<^verbatim>\<open>cleanupInstruments\<close> does to the command handler: the field of the session
  is \<^verbatim>\<open>null\<close> afterwards, so \<^verbatim>\<open>sendCommand\<close> throws; in the handler object the
  in-flight command and the dispatch hook are gone, and the pending commands are all
  still there.
\<close>

lemma cleanup_discards_handler:
  assumes "cleanupInstruments s = Inr (s', fx)"
  shows "commandHandler s' = None \<and> instruments_sendCommand cm f s' = Inl TypeError \<and>
         curCommand (handler_obj s') = None \<and> onReceiveCommand (handler_obj s') = None \<and>
         commandQueue (handler_obj s') = commandQueue (handler_obj s)"
  using assms
  by (auto simp: cleanupInstruments_def Let_def instruments_sendCommand_def clean_def
           split: option.splits)

lemma exit_run_state:
  "commandHandler (fst (run peer_parse exit_run (Instruments 0 False))) = None \<and>
   handler_obj (fst (run peer_parse exit_run (Instruments 0 False))) =
     \<lparr>curCommand = None, commandQueue = [\<lparr>cmd = ''b'', cb = 11\<rparr>], onReceiveCommand = None\<rparr> \<and>
   socketServer (fst (run peer_parse exit_run (Instruments 0 False))) = ServerListening \<and>
   conns (fst (run peer_parse exit_run (Instruments 0 False))) = [] \<and>
   bufferedData (fst (run peer_parse exit_run (Instruments 0 False))) = [] \<and>
   hasConnected (fst (run peer_parse exit_run (Instruments 0 False))) \<and>
   snd (run peer_parse exit_run (Instruments 0 False)) =
     [FindInstruments, Listen, Spawn 0, LaunchCb 1 None, SocketWrite 0 ''a'', ExitCb 2 0 None]"
  by (simp add: exit_run_def session_defs)

text \<open>
  C10. In this run the child process exits after check-in and the exit is cleaned up: the
  field \<^verbatim>\<open>commandHandler\<close> is \<^verbatim>\<open>null\<close>, \<^verbatim>\<open>sendCommand\<close> throws, and no callback
  has been called. The event router still holds the handler object with command \<open>b\<close>
  pending, and the server still listens, since no connection was open at the exit. Two
  connections that come after it get command \<open>b\<close> dispatched and its callback called:
  a callback of a command of the session that has ended.
\<close>

theorem stale_callback_after_cleanup:
  "commandHandler (fst (run peer_parse exit_run (Instruments 0 False))) = None \<and>
   instruments_sendCommand ''c'' 12 (fst (run peer_parse exit_run (Instruments 0 False)))
     = Inl TypeError \<and>
   fired (snd (run peer_parse exit_run (Instruments 0 False))) = [] \<and>
   snd (run peer_parse after_exit_run (fst (run peer_parse exit_run (Instruments 0 False))))
     = [SocketWrite 1 ''b'', CmdCallback 11 (JNum 1)]"
proof -
  let ?s = "fst (run peer_parse exit_run (Instruments 0 False))"
  have "snd (run peer_parse after_exit_run ?s) = [SocketWrite 1 ''b'', CmdCallback 11 (JNum 1)]"
    using exit_run_state
    by (simp add: after_exit_run_def onSocketConnect_def on_end_def Let_def peer_parse_def
          handleCommand_def waitForCommand_def send_next_def)
  then show ?thesis
    using exit_run_state by (simp add: instruments_sendCommand_def)
qed

lemma shutdown_callbacks_append:
  "shutdown_callbacks (fx @ gx) = shutdown_callbacks fx @ shutdown_callbacks gx"
  by (induction fx rule: shutdown_callbacks.induct) simp_all

lemma never_started_step:
  assumes "never_started s" "\<not> is_start e"
  shows "never_started (fst (step P e s)) \<and> shutdown_callbacks (snd (step P e s)) = []"
proof (cases e)
  case (SendCommand cm f)
  show ?thesis
  proof (cases "commandHandler s")
    case None
    with SendCommand assms show ?thesis by (simp add: instruments_sendCommand_def)
  next
    case (Some r)
    obtain h fx where q: "sendCommand cm f (handler_obj s) = (h, fx)"
      by (cases "sendCommand cm f (handler_obj s)")
    have "shutdown_callbacks fx = []"
      using q by (auto simp: sendCommand_def send_next_def Let_def split: option.splits list.splits)
    with Some q SendCommand assms show ?thesis
      by (simp add: instruments_sendCommand_def never_started_def)
  qed
next
  case (Shutdown f)
  with assms show ?thesis by (simp add: shutdown_def termProc_def never_started_def)
next
  case (Timeout i)
  with assms show ?thesis by (simp add: on_timeout_def never_started_def)
qed (use assms in \<open>simp_all add: never_started_def\<close>)

lemma never_started_run:
  assumes "never_started s"
  shows "shutdown_callbacks (snd (run P (filter (\<lambda>e. \<not> is_start e) es) s)) = []"
  using assms
proof (induction es arbitrary: s)
  case Nil
  show ?case by simp
next
  case (Cons e es)
  show ?case
  proof (cases "is_start e")
    case True
    with Cons show ?thesis by simp
  next
    case False
    obtain s1 fx1 where a: "step P e s = (s1, fx1)" by (cases "step P e s")
    from never_started_step [OF Cons.prems False, of P] a
    have 1: "never_started s1" "shutdown_callbacks fx1 = []" by simp_all
    obtain s2 fx2 where b: "run P (filter (\<lambda>e. \<not> is_start e) es) s1 = (s2, fx2)"
      by (cases "run P (filter (\<lambda>e. \<not> is_start e) es) s1")
    from Cons.IH [OF 1(1)] b have "shutdown_callbacks fx2 = []" by simp
    with False a b 1 show ?thesis
      by (simp add: shutdown_callbacks_append)
  qed
qed

text \<open>
  C4. On a session that has no child process, \<^verbatim>\<open>shutdown\<close> records its callback and
  does nothing else: no signal, no timeout. Whatever happens afterwards, as long as
  \<^verbatim>\<open>start\<close> is not called, the callback is never called.
\<close>

theorem shutdown_without_child_never_calls_back:
  "shutdown f (Instruments n ign) = ((Instruments n ign)\<lparr>shutdownCb := Some f\<rparr>, []) \<and>
   shutdown_callbacks
     (snd (run P (Shutdown f # filter (\<lambda>e. \<not> is_start e) es) (Instruments n ign))) = []"
proof -
  have s: "shutdown f (Instruments n ign) = ((Instruments n ign)\<lparr>shutdownCb := Some f\<rparr>, [])"
    by (simp add: shutdown_def termProc_def Instruments_def)
  have ns: "never_started ((Instruments n ign)\<lparr>shutdownCb := Some f\<rparr>)"
    by (simp add: never_started_def Instruments_def)
  obtain s2 fx2 where b: "run P (filter (\<lambda>e. \<not> is_start e) es)
      ((Instruments n ign)\<lparr>shutdownCb := Some f\<rparr>) = (s2, fx2)"
    by (cases "run P (filter (\<lambda>e. \<not> is_start e) es) ((Instruments n ign)\<lparr>shutdownCb := Some f\<rparr>)")
  from never_started_run [OF ns, of P es] b have "shutdown_callbacks fx2 = []" by simp
  with s b show ?thesis by simp
qed

text \<open>
  With a child process running after check-in, \<^verbatim>\<open>shutdown\<close> sends the termination
  signal and the exit of the child calls the callback once; if the timeout set in
  \<^verbatim>\<open>termProc\<close> fires first, the kill goes out and the exit still calls the callback
  once.
\<close>

lemma shutdown_of_running_child:
  "snd (run no_parse [Shutdown 5, ProcExit 0]
          (fst (run no_parse check_in_run (Instruments 0 False))))
     = [SigTerm 0, SocketDestroy 0, ServerClose, ShutdownCb 5] \<and>
   snd (run no_parse [Shutdown 5, Timeout 1, ProcExit 0]
          (fst (run no_parse check_in_run (Instruments 0 False))))
     = [SigTerm 0, Killall, SocketDestroy 0, ServerClose, ShutdownCb 5]"
  by (simp add: check_in_run_def session_defs)

text \<open>
  C9. A chunk of two filler lines. The match of the first line takes the line feed that
  ends it, which is the one a match of the second line would have to start with; the
  second line is not at index 0 either, so it stays in the output.
\<close>

theorem consecutive_filler_lines_survive:
  "clearBufferChars ''***\<newline>***\<newline>'' = ''***\<newline>''"
  by (simp add: clearBufferChars_def replace_all.simps match_at_def stars_then_newline_def
        opt_newline_def filler_def newline_def)

lemma starts_with_append: "starts_with x (x @ y)"
  by (induction x) simp_all

lemma starts_with_take: "starts_with x v \<Longrightarrow> take (length x) v = x"
  by (induction x v rule: starts_with.induct) simp_all

lemma exec_re_skip:
  assumes "CHR ''I'' \<notin> set pre"
  shows "exec_re (pre @ t) = exec_re t"
  using assms by (induction pre) (simp_all add: trace_complete_def)

lemma capture_group_path:
  assumes "p \<noteq> []" "CHR 0x29 \<notin> set p"
  shows "capture_group (p @ CHR 0x29 # post) = Some p"
proof -
  have a: "\<forall>x \<in> set p. x \<noteq> CHR 0x29" using assms(2) by auto
  have "takeWhile (\<lambda>c. c \<noteq> CHR 0x29) (p @ CHR 0x29 # post) = p"
    using a by (simp add: takeWhile_append2)
  moreover have "dropWhile (\<lambda>c. c \<noteq> CHR 0x29) (p @ CHR 0x29 # post) = CHR 0x29 # post"
    using a by (simp add: dropWhile_append2)
  ultimately show ?thesis using assms(1) by (simp add: capture_group_def)
qed

lemma output_here_path:
  assumes "p \<noteq> []" "CHR 0x29 \<notin> set p"
  shows "output_here (output_tag @ p @ CHR 0x29 # post) = Some p"
  using capture_group_path [OF assms] by (simp add: output_here_def starts_with_append)

lemma starts_with_decomp: "starts_with x v \<Longrightarrow> v = x @ drop (length x) v"
  by (induction x v rule: starts_with.induct) simp_all

lemma output_here_needs_colon:
  assumes "CHR '':'' \<notin> set (drop 7 v)"
  shows "output_here v = None"
proof (rule ccontr)
  assume "output_here v \<noteq> None"
  then have "starts_with output_tag v" by (simp add: output_here_def split: if_splits)
  from starts_with_decomp [OF this] obtain w where "v = output_tag @ w" by blast
  then have "CHR '':'' \<in> set (drop 7 v)" by (simp add: output_tag_def)
  with assms show False by simp
qed

lemma any_then_output_needs_colon:
  "CHR '':'' \<notin> set (drop 7 u) \<Longrightarrow> any_then_output u = None"
proof (induction u)
  case Nil
  then show ?case by (simp add: output_here_needs_colon)
next
  case (Cons c cs)
  have "set (drop 7 cs) \<subseteq> set (drop 6 cs)"
    by (metis drop_drop set_drop_subset add.commute one_add_one numeral_plus_one
          semiring_norm(5) semiring_norm(4) semiring_norm(2) semiring_norm(3)  numeral_One)
  with Cons.prems have "CHR '':'' \<notin> set (drop 7 cs)" by (auto simp: drop_Cons')
  from Cons.IH [OF this] output_here_needs_colon [OF Cons.prems] show ?case by simp
qed

lemma any_then_output_skip:
  assumes "any_then_output t = Some p" "\<forall>c \<in> set m. \<not> line_terminator c"
  shows "any_then_output (m @ t) = Some p"
  using assms by (induction m) simp_all

lemma any_then_output_path:
  assumes "p \<noteq> []" "CHR 0x29 \<notin> set p" "CHR '':'' \<notin> set p" "CHR '':'' \<notin> set post"
  shows "any_then_output (output_tag @ p @ CHR 0x29 # post) = Some p"
proof -
  have "any_then_output (tl (output_tag @ p @ CHR 0x29 # post)) = None"
    using assms(3,4) by (intro any_then_output_needs_colon) (simp add: output_tag_def)
  moreover have "output_tag @ p @ CHR 0x29 # post = CHR ''O'' # tl (output_tag @ p @ CHR 0x29 # post)"
    by (simp add: output_tag_def)
  moreover have "\<not> line_terminator (CHR ''O'')" by (simp add: line_terminator_def)
  ultimately have "any_then_output (output_tag @ p @ CHR 0x29 # post) =
      output_here (output_tag @ p @ CHR 0x29 # post)"
    by (metis any_then_output.simps(2) option.simps(4))
  with output_here_path [OF assms(1,2)] show ?thesis by simp
qed

text \<open>
  The completion marker: whatever stands before the marker, as long as it has no
  \<^verbatim>\<open>I\<close> (filler and line feeds do not), and whatever stands behind the closing
  parenthesis, as long as it has no colon, the path between \<^verbatim>\<open>Output : \<close> and the
  parenthesis is returned as it is. The path has no colon and no closing parenthesis.
\<close>

lemma trace_dir_recovered:
  assumes "CHR ''I'' \<notin> set pre" "m \<noteq> []" "\<forall>c \<in> set m. \<not> line_terminator c"
    "p \<noteq> []" "CHR 0x29 \<notin> set p" "CHR '':'' \<notin> set p" "CHR '':'' \<notin> set post"
  shows "lookForTraceDir (pre @ trace_complete @ m @ output_tag @ p @ CHR 0x29 # post) = Some p"
proof -
  let ?x = "output_tag @ p @ CHR 0x29 # post"
  obtain c m' where m: "m = c # m'" using assms(2) by (cases m) auto
  with assms(3) have c: "\<not> line_terminator c" "\<forall>c \<in> set m'. \<not> line_terminator c" by simp_all
  have "any_then_output (m' @ ?x) = Some p"
    using any_then_output_path [OF assms(4-7)] c(2) by (rule any_then_output_skip)
  with c(1) m have d: "dot_plus_output (m @ ?x) = Some p" by (simp add: dot_plus_output_def)
  obtain k ks where k: "trace_complete @ m @ ?x = k # ks" by (simp add: trace_complete_def)
  have "exec_re (trace_complete @ m @ ?x) = Some p"
    unfolding k [symmetric, THEN arg_cong, of exec_re]
    using d k starts_with_append [of trace_complete "m @ ?x"]
    by (metis append_eq_conv_conj exec_re.simps(2) option.simps(5))
  with exec_re_skip [OF assms(1)] show ?thesis by (simp add: lookForTraceDir_def)
qed

lemma adjacent_Cons: "adjacent_filler_lines cs \<Longrightarrow> adjacent_filler_lines (c # cs)"
  by (simp add: adjacent_filler_lines_def)

lemma adjacent_dropWhile:
  "adjacent_filler_lines (dropWhile P cs) \<Longrightarrow> adjacent_filler_lines cs"
  by (induction cs) (auto simp: adjacent_Cons split: if_splits)

lemma adjacent_opt_newline: "adjacent_filler_lines (opt_newline v) \<Longrightarrow> adjacent_filler_lines v"
  by (cases v) (auto simp: opt_newline_def adjacent_Cons split: if_splits)

lemma filler_run_then_filler:
  "starts_filler (opt_newline (dropWhile (\<lambda>x. x = filler) cs))
     \<Longrightarrow> adjacent_filler_lines (filler # cs)"
proof (induction cs)
  case Nil
  then show ?case by (simp add: opt_newline_def starts_filler_def)
next
  case (Cons c cs)
  show ?case
  proof (cases "c = filler")
    case True
    with Cons have "adjacent_filler_lines (filler # cs)" by simp
    with True show ?thesis by (simp add: adjacent_Cons)
  next
    case False
    with Cons.prems have "c = newline \<and> starts_filler cs"
      by (auto simp: opt_newline_def starts_filler_def split: if_splits)
    then show ?thesis
      by (cases cs) (simp_all add: adjacent_filler_lines_def starts_filler_def)
  qed
qed

lemma stars_then_newline_rest:
  assumes "stars_then_newline u = Some rest" "\<not> adjacent_filler_lines u"
  shows "\<not> adjacent_filler_lines rest \<and> \<not> starts_filler rest"
proof -
  from assms(1) obtain cs where u: "u = filler # cs"
    and r: "rest = opt_newline (dropWhile (\<lambda>x. x = filler) cs)"
    by (cases u) (auto simp: stars_then_newline_def split: if_splits)
  have "adjacent_filler_lines rest \<Longrightarrow> adjacent_filler_lines u"
    unfolding r u using adjacent_opt_newline adjacent_dropWhile adjacent_Cons by blast
  moreover have "starts_filler rest \<Longrightarrow> adjacent_filler_lines u"
    unfolding r u by (rule filler_run_then_filler)
  ultimately show ?thesis using assms(2) by blast
qed

lemma match_at_rest:
  assumes "match_at b s = Some rest" "\<not> adjacent_filler_lines s"
  shows "\<not> adjacent_filler_lines rest \<and> \<not> starts_filler rest"
proof (cases "\<exists>cs. s = newline # cs \<and> stars_then_newline cs \<noteq> None")
  case True
  then obtain cs r where s: "s = newline # cs" and m: "stars_then_newline cs = Some r" by auto
  with assms(1) have "rest = r" by (simp add: match_at_def)
  moreover have "\<not> adjacent_filler_lines cs" using assms(2) s adjacent_Cons by blast
  ultimately show ?thesis using stars_then_newline_rest [OF m] by simp
next
  case False
  then have "(case s of [] \<Rightarrow> None
                    | c # cs \<Rightarrow> if c = newline then stars_then_newline cs else None) = None"
    by (cases s) auto
  with assms(1) have "stars_then_newline s = Some rest"
    by (simp add: match_at_def split: if_splits)
  from stars_then_newline_rest [OF this assms(2)] show ?thesis .
qed

lemma match_at_None:
  assumes "match_at b (c # cs) = None"
  shows "(c = newline \<longrightarrow> \<not> starts_filler cs) \<and> (b \<longrightarrow> c \<noteq> filler)"
  using assms
  by (cases cs)
     (auto simp: match_at_def stars_then_newline_def starts_filler_def
           split: if_splits option.splits)

lemma replace_all_clean:
  "\<not> adjacent_filler_lines s \<Longrightarrow>
     \<not> newline_then_filler (replace_all b s) \<and>
     (b \<or> \<not> starts_filler s \<longrightarrow> \<not> starts_filler (replace_all b s))"
proof (induction b s rule: replace_all.induct)
  case (1 b s)
  show ?case
  proof (cases "match_at b s")
    case (Some rest)
    from match_at_rest [OF Some "1.prems"]
    have r: "\<not> adjacent_filler_lines rest" "\<not> starts_filler rest" by simp_all
    from "1.IH"(2) [OF Some r(1)] r(2)
    have "\<not> newline_then_filler (replace_all False rest) \<and> \<not> starts_filler (replace_all False rest)"
      by simp
    moreover have "replace_all b s = replace_all False rest"
      using Some by (subst replace_all.simps) simp
    ultimately show ?thesis by simp
  next
    case None
    show ?thesis
    proof (cases s)
      case Nil
      with None have "replace_all b s = []" by (subst replace_all.simps) simp
      then show ?thesis by (simp add: starts_filler_def)
    next
      case (Cons c cs)
      have e: "replace_all b s = c # replace_all False cs"
        using None Cons by (subst replace_all.simps) simp
      have "\<not> adjacent_filler_lines cs" using "1.prems" Cons adjacent_Cons by blast
      from "1.IH"(1) [OF None Cons this]
      have ih: "\<not> newline_then_filler (replace_all False cs)"
        "\<not> starts_filler cs \<Longrightarrow> \<not> starts_filler (replace_all False cs)" by simp_all
      from match_at_None None Cons
      have n: "c = newline \<longrightarrow> \<not> starts_filler cs" "b \<longrightarrow> c \<noteq> filler" by blast+
      have "\<not> newline_then_filler (c # replace_all False cs)"
        using ih n(1) by auto
      moreover have "b \<or> \<not> starts_filler s \<longrightarrow> \<not> starts_filler (c # replace_all False cs)"
        using n(2) Cons by (auto simp: starts_filler_def)
      ultimately show ?thesis unfolding e by simp
    qed
  qed
qed

lemma filter_genuine_dropWhile:
  "filter genuine (dropWhile (\<lambda>x. x = filler) cs) = filter genuine cs"
proof (induction cs)
  case Nil
  show ?case by simp
next
  case (Cons c cs)
  have "\<not> genuine filler" by (simp add: genuine_def)
  with Cons show ?case by (cases "c = filler") simp_all
qed

lemma filter_genuine_opt_newline: "filter genuine (opt_newline v) = filter genuine v"
  by (cases v) (simp_all add: opt_newline_def genuine_def)

lemma stars_then_newline_genuine:
  assumes "stars_then_newline u = Some rest"
  shows "filter genuine rest = filter genuine u"
proof -
  from assms obtain cs where u: "u = filler # cs"
    and r: "rest = opt_newline (dropWhile (\<lambda>x. x = filler) cs)"
    by (cases u) (auto simp: stars_then_newline_def split: if_splits)
  have "\<not> genuine filler" by (simp add: genuine_def)
  then show ?thesis
    unfolding u r by (simp add: filter_genuine_dropWhile filter_genuine_opt_newline)
qed

lemma match_at_genuine:
  assumes "match_at b s = Some rest"
  shows "filter genuine rest = filter genuine s"
proof (cases s)
  case Nil
  with assms show ?thesis
    by (simp add: match_at_def stars_then_newline_def split: if_splits)
next
  case (Cons c cs)
  show ?thesis
  proof (cases "c = newline \<and> stars_then_newline cs \<noteq> None")
    case True
    then obtain r where r: "stars_then_newline cs = Some r" by auto
    with True assms Cons have "rest = r" by (simp add: match_at_def)
    with stars_then_newline_genuine [OF r] True Cons show ?thesis by (simp add: genuine_def)
  next
    case False
    with assms Cons have "stars_then_newline s = Some rest"
      by (auto simp: match_at_def split: if_splits option.splits)
    then show ?thesis by (rule stars_then_newline_genuine)
  qed
qed

lemma replace_all_genuine: "filter genuine (replace_all b s) = filter genuine s"
proof (induction b s rule: replace_all.induct)
  case (1 b s)
  show ?case
  proof (cases "match_at b s")
    case (Some rest)
    have "replace_all b s = replace_all False rest"
      using Some by (subst replace_all.simps) simp
    with "1.IH"(2) [OF Some] match_at_genuine [OF Some] show ?thesis by simp
  next
    case None
    show ?thesis
    proof (cases s)
      case Nil
      with None show ?thesis by (subst replace_all.simps) simp
    next
      case (Cons c cs)
      have "replace_all b s = c # replace_all False cs"
        using None Cons by (subst replace_all.simps) simp
      with "1.IH"(1) [OF None Cons] Cons show ?thesis by simp
    qed
  qed
qed

text \<open>
  What the filter does remove: in a chunk where no filler run follows directly on the
  line feed of another, no line of the output begins with the filler character. In
  every chunk, the characters other than filler and line feed are all kept, in order.
\<close>

lemma interleaved_filler_removed:
  assumes "\<not> adjacent_filler_lines chunk"
  shows "\<not> starts_filler (clearBufferChars chunk) \<and>
         \<not> newline_then_filler (clearBufferChars chunk) \<and>
         filter genuine (clearBufferChars chunk) = filter genuine chunk"
  using replace_all_clean [OF assms, of True] replace_all_genuine [of True chunk]
  by (simp add: clearBufferChars_def)

end
